theory Spec2Isabelle
  imports Main "HOL-Library.Sublist"
begin

section \<open>Python values shared by the modules\<close>

text \<open>
  Exceptions are values.  The Selenium hierarchy matters to the handlers of
  \<^verbatim>\<open>base_page.py\<close>: \<^verbatim>\<open>TimeoutException\<close> is a subclass of
  \<^verbatim>\<open>WebDriverException\<close>, and both are subclasses of \<^verbatim>\<open>Exception\<close>.
  \<open>OtherException\<close> stands for any \<^verbatim>\<open>Exception\<close> that is not a
  \<^verbatim>\<open>WebDriverException\<close>.
\<close>

datatype exn =
    ValueError string
  | RuntimeError string
  | AssertionError string
  | FileNotFoundError string
  | IndexError
  | WebDriverException string
  | TimeoutException string
  | OtherException string

fun is_WebDriverException :: "exn \<Rightarrow> bool" where
  "is_WebDriverException (WebDriverException m) = True"
| "is_WebDriverException (TimeoutException m) = True"
| "is_WebDriverException e = False"

fun is_TimeoutException :: "exn \<Rightarrow> bool" where
  "is_TimeoutException (TimeoutException m) = True"
| "is_TimeoutException e = False"

type_synonym 'a res = "exn + 'a"

subsection \<open>Strings\<close>

text \<open>
  A Python \<^verbatim>\<open>str\<close> is modelled as a \<open>string\<close>, one \<open>char\<close> per code
  point below 256.  \<open>is_space\<close> is \<^verbatim>\<open>str.isspace\<close> on that range.
\<close>

definition is_space :: "char \<Rightarrow> bool" where
  "is_space c = (of_char c \<in> {9, 10, 11, 12, 13, 28, 29, 30, 31, 32, 133, 160 :: nat})"

definition lstrip_chars :: "(char \<Rightarrow> bool) \<Rightarrow> string \<Rightarrow> string" where
  "lstrip_chars p s = dropWhile p s"

definition rstrip_chars :: "(char \<Rightarrow> bool) \<Rightarrow> string \<Rightarrow> string" where
  "rstrip_chars p s = rev (dropWhile p (rev s))"

text \<open>\<^verbatim>\<open>s.strip()\<close>, \<^verbatim>\<open>s.lstrip("/")\<close> and \<^verbatim>\<open>s.rstrip("/")\<close>.\<close>

definition strip :: "string \<Rightarrow> string" where
  "strip s = rstrip_chars is_space (lstrip_chars is_space s)"

definition lstrip_slash :: "string \<Rightarrow> string" where
  "lstrip_slash s = lstrip_chars (\<lambda>c. c = CHR ''/'') s"

definition rstrip_slash :: "string \<Rightarrow> string" where
  "rstrip_slash s = rstrip_chars (\<lambda>c. c = CHR ''/'') s"

text \<open>\<^verbatim>\<open>s.startswith(p)\<close> and \<^verbatim>\<open>text in s\<close>.\<close>

definition startswith :: "string \<Rightarrow> string \<Rightarrow> bool" where
  "startswith s p = (take (length p) s = p)"

fun contains :: "string \<Rightarrow> string \<Rightarrow> bool" where
  "contains [] t = (t = [])"
| "contains (c # s) t = (startswith (c # s) t \<or> contains s t)"

text \<open>\<^verbatim>\<open>str(n)\<close> for a non-negative integer, and for any integer.\<close>

definition digit_char :: "nat \<Rightarrow> char" where
  "digit_char d = ''0123456789'' ! d"

fun str_nat :: "nat \<Rightarrow> string" where
  "str_nat n = (if n < 10 then [digit_char n] else str_nat (n div 10) @ [digit_char (n mod 10)])"

declare str_nat.simps [simp del]

definition str_int :: "int \<Rightarrow> string" where
  "str_int i = (if i < 0 then CHR ''-'' # str_nat (nat (- i)) else str_nat (nat i))"

subsection \<open>Sequencing calls that may raise\<close>

text \<open>
  A call returns its result, or the exception it raised, together with the
  state it leaves.  \<open>then_do m f\<close> runs \<open>f\<close> on the value of \<open>m\<close>; an
  exception of \<open>m\<close> propagates, as it does out of a Python statement that no
  handler encloses.
\<close>

definition then_do :: "'a res \<times> 's \<Rightarrow> ('a \<Rightarrow> 's \<Rightarrow> 'b res \<times> 's) \<Rightarrow> 'b res \<times> 's" where
  "then_do m f = (case m of (Inl e, s) \<Rightarrow> (Inl e, s) | (Inr a, s) \<Rightarrow> f a s)"

section \<open>\<^verbatim>\<open>utilities/random_data.py\<close>\<close>

text \<open>
  The random sources (\<^verbatim>\<open>secrets.SystemRandom\<close>, the \<^verbatim>\<open>random\<close> module
  and Faker) are one stream of draws, consumed from the front: every sequence
  of outcomes is some stream.  \<open>randbelow n\<close> is a value below \<open>n\<close>.
\<close>

type_synonym rng = "nat \<Rightarrow> nat"

definition draw :: "rng \<Rightarrow> nat \<times> rng" where
  "draw r = (r 0, \<lambda>i. r (Suc i))"

definition randbelow :: "nat \<Rightarrow> rng \<Rightarrow> nat \<times> rng" where
  "randbelow n r = (case draw r of (d, r') \<Rightarrow> (d mod n, r'))"

text \<open>\<^verbatim>\<open>rng.choice(seq)\<close>: \<^verbatim>\<open>IndexError\<close> on an empty sequence.\<close>

definition choice :: "'a list \<Rightarrow> rng \<Rightarrow> 'a res \<times> rng" where
  "choice seq r =
     (if seq = [] then (Inl IndexError, r)
      else case randbelow (length seq) r of (j, r') \<Rightarrow> (Inr (seq ! j), r'))"

text \<open>
  \<^verbatim>\<open>[rng.choice(seq) for _ in range(k)]\<close> and \<^verbatim>\<open>random.choices(seq, k=k)\<close>:
  \<open>k\<close> picks, none for \<open>k \<le> 0\<close>; the first pick from an empty sequence raises.
\<close>

fun choices_n :: "'a list \<Rightarrow> nat \<Rightarrow> rng \<Rightarrow> 'a list res \<times> rng" where
  "choices_n seq 0 r = (Inr [], r)"
| "choices_n seq (Suc k) r =
     (case choice seq r of
        (Inl e, r') \<Rightarrow> (Inl e, r')
      | (Inr c, r') \<Rightarrow>
          (case choices_n seq k r' of
             (Inl e, r'') \<Rightarrow> (Inl e, r'')
           | (Inr cs, r'') \<Rightarrow> (Inr (c # cs), r'')))"

definition choices :: "'a list \<Rightarrow> int \<Rightarrow> rng \<Rightarrow> 'a list res \<times> rng" where
  "choices seq k r = choices_n seq (nat k) r"

definition digits :: string where
  "digits = ''0123456789''"

definition ascii_uppercase :: string where
  "ascii_uppercase = ''ABCDEFGHIJKLMNOPQRSTUVWXYZ''"

definition ascii_lowercase :: string where
  "ascii_lowercase = ''abcdefghijklmnopqrstuvwxyz''"

definition ascii_letters :: string where
  "ascii_letters = ascii_lowercase @ ascii_uppercase"

text \<open>
  \<^verbatim>\<open>employee_id(length, allow_leading_zero)\<close>: \<^verbatim>\<open>range(length)\<close> is empty
  for \<open>length \<le> 0\<close>.
\<close>

definition employee_id :: "int \<Rightarrow> bool \<Rightarrow> rng \<Rightarrow> string res \<times> rng" where
  "employee_id len allow_leading_zero r =
     (if allow_leading_zero then choices digits len r
      else
        then_do (choice ''123456789'' r) (\<lambda>first r1.
        then_do (if len > 1 then choices digits (len - 1) r1 else (Inr [], r1)) (\<lambda>rest r2.
        (Inr (first # rest), r2))))"

text \<open>
  \<^verbatim>\<open>username_from_name\<close>.  \<^verbatim>\<open>lower\<close> and \<^verbatim>\<open>isalpha\<close> are modelled on
  the ASCII letters, so the user name is the code's for names in ASCII only
  (Python lowers and keeps other letters too); \<^verbatim>\<open>base[:length]\<close> with a
  negative length drops from the end, and \<^verbatim>\<open>ljust\<close> pads only a shorter
  string.
\<close>

definition is_upper :: "char \<Rightarrow> bool" where
  "is_upper c = (c \<in> set ascii_uppercase)"

definition is_alpha :: "char \<Rightarrow> bool" where
  "is_alpha c = (c \<in> set ascii_letters)"

definition lower_char :: "char \<Rightarrow> char" where
  "lower_char c = (if is_upper c then char_of (of_char c + (32::nat)) else c)"

definition slice_to :: "int \<Rightarrow> 'a list \<Rightarrow> 'a list" where
  "slice_to n xs = (if n \<ge> 0 then take (nat n) xs else take (length xs - nat (- n)) xs)"

definition ljust :: "int \<Rightarrow> char \<Rightarrow> string \<Rightarrow> string" where
  "ljust n c s = s @ replicate (nat n - length s) c"

definition username_from_name :: "string \<Rightarrow> string option \<Rightarrow> string \<Rightarrow> int \<Rightarrow> string" where
  "username_from_name first middle last' len =
     (let base = map lower_char (first @ (case middle of None \<Rightarrow> [] | Some m \<Rightarrow> m) @ last');
          base = filter is_alpha base
      in ljust len CHR ''x'' (slice_to len base))"

text \<open>
  \<^verbatim>\<open>random.shuffle\<close>: for \<open>i\<close> from the last index down to 1, swap
  position \<open>i\<close> with a position drawn below \<open>i + 1\<close>.
\<close>

fun shuffle_loop :: "nat \<Rightarrow> 'a list \<Rightarrow> rng \<Rightarrow> 'a list \<times> rng" where
  "shuffle_loop 0 x r = (x, r)"
| "shuffle_loop (Suc i) x r =
     (case randbelow (Suc i + 1) r of
        (j, r') \<Rightarrow> shuffle_loop i ((x[Suc i := x ! j])[j := x ! Suc i]) r')"

definition shuffle :: "'a list \<Rightarrow> rng \<Rightarrow> 'a list \<times> rng" where
  "shuffle x r = shuffle_loop (length x - 1) x r"

definition password ::
  "int \<Rightarrow> int \<Rightarrow> int \<Rightarrow> int \<Rightarrow> int \<Rightarrow> string \<Rightarrow> rng \<Rightarrow> string res \<times> rng" where
  "password len min_upper min_lower min_digits min_special specials r =
     then_do (choices ascii_uppercase min_upper r) (\<lambda>p1 r1.
     then_do (choices ascii_lowercase min_lower r1) (\<lambda>p2 r2.
     then_do (choices digits min_digits r2) (\<lambda>p3 r3.
     then_do (choices specials min_special r3) (\<lambda>p4 r4.
       let pool = p1 @ p2 @ p3 @ p4;
           remaining = len - int (length pool)
       in then_do (choices (ascii_letters @ digits @ specials) remaining r4) (\<lambda>p5 r5.
            case shuffle (pool @ p5) r5 of (pool', r6) \<Rightarrow> (Inr pool', r6))))))"

text \<open>
  Faker is an external library: \<^verbatim>\<open>faker.first_name()\<close> and
  \<^verbatim>\<open>faker.last_name()\<close> are parameters that consume draws and return a name.
\<close>

record faker =
  fk_first_name :: "rng \<Rightarrow> string \<times> rng"
  fk_last_name :: "rng \<Rightarrow> string \<times> rng"

definition first_name :: "faker \<Rightarrow> rng \<Rightarrow> string \<times> rng" where
  "first_name fk r = fk_first_name fk r"

definition middle_name :: "faker \<Rightarrow> rng \<Rightarrow> string \<times> rng" where
  "middle_name fk r = fk_first_name fk r"

definition last_name :: "faker \<Rightarrow> rng \<Rightarrow> string \<times> rng" where
  "last_name fk r = fk_last_name fk r"

text \<open>
  \<^verbatim>\<open>generate_employee_with_credentials\<close> returns a dict from field names to
  strings.
\<close>

definition generate_employee_with_credentials ::
  "faker \<Rightarrow> int \<Rightarrow> int \<Rightarrow> int \<Rightarrow> rng \<Rightarrow> (string \<rightharpoonup> string) res \<times> rng" where
  "generate_employee_with_credentials fk id_length username_length password_length r =
     (case first_name fk r of (f, r1) \<Rightarrow>
      case middle_name fk r1 of (m, r2) \<Rightarrow>
      case last_name fk r2 of (l, r3) \<Rightarrow>
        then_do (employee_id id_length False r3) (\<lambda>eid r4.
          let uname = username_from_name f (Some m) l username_length
          in then_do (password password_length 1 1 1 1 ''!@#$%'' r4) (\<lambda>pwd r5.
               (Inr [''first_name'' \<mapsto> f, ''middle_name'' \<mapsto> m, ''last_name'' \<mapsto> l,
                     ''employee_id'' \<mapsto> eid, ''username'' \<mapsto> uname,
                     ''password'' \<mapsto> pwd, ''confirm_password'' \<mapsto> pwd], r5))))"

section \<open>\<^verbatim>\<open>utilities/readproperties.py\<close>\<close>

text \<open>
  The process environment and the file system, as far as \<^verbatim>\<open>ReadConfig\<close>
  reads them.  A parsed configuration maps (section, key) to the string that
  \<^verbatim>\<open>ConfigParser.get\<close> returns.  \<open>config_file\<close> is the content of
  \<^verbatim>\<open>configuration/config.ini\<close>, \<open>None\<close> when the file does not exist;
  \<open>rc_config\<close> is the class attribute \<^verbatim>\<open>ReadConfig._config\<close>.
  The file is one that \<^verbatim>\<open>parser.read\<close> accepts, and its values are ones
  that the default interpolation of \<^verbatim>\<open>ConfigParser.get\<close> returns: a file
  with a syntax error, or a value with a bare percent sign, for which these
  calls raise, has no counterpart here.
\<close>

type_synonym parser = "string \<times> string \<rightharpoonup> string"

record os_state =
  environ :: "string \<rightharpoonup> string"
  config_file :: "parser option"
  rc_config :: "parser option"

text \<open>\<^verbatim>\<open>ReadConfig._ensure_loaded()\<close>, with the default path.\<close>

definition ensure_loaded :: "os_state \<Rightarrow> unit res \<times> os_state" where
  "ensure_loaded st =
     (if rc_config st \<noteq> None then (Inr (), st)
      else case config_file st of
        None \<Rightarrow> (Inl (FileNotFoundError ''Config file not found''), st)
      | Some p \<Rightarrow> (Inr (), st\<lparr>rc_config := Some p\<rparr>))"

text \<open>
  \<^verbatim>\<open>ReadConfig._get_raw\<close>: a missing section or option gives the fallback.
\<close>

definition get_raw ::
  "string \<Rightarrow> string \<Rightarrow> string option \<Rightarrow> os_state \<Rightarrow> string option res \<times> os_state" where
  "get_raw section key fallback st =
     then_do (ensure_loaded st) (\<lambda>_ st'.
       case rc_config st' of
         None \<Rightarrow> (Inl (AssertionError []), st')
       | Some p \<Rightarrow>
           (case p (section, key) of
              None \<Rightarrow> (Inr fallback, st')
            | Some v \<Rightarrow> (Inr (Some v), st')))"

text \<open>
  \<^verbatim>\<open>ReadConfig.get\<close>: \<^verbatim>\<open>if env_var:\<close> holds for a non-empty name, and
  \<^verbatim>\<open>os.getenv\<close> is \<open>None\<close> for an unset variable.
\<close>

definition get ::
  "string \<Rightarrow> string \<Rightarrow> string option \<Rightarrow> string option \<Rightarrow> os_state
     \<Rightarrow> string option res \<times> os_state" where
  "get section key fallback env_var st =
     (case env_var of
        None \<Rightarrow> get_raw section key fallback st
      | Some ev \<Rightarrow>
          if ev = [] then get_raw section key fallback st
          else (case environ st ev of
                  Some val \<Rightarrow> (Inr (Some val), st)
                | None \<Rightarrow> get_raw section key fallback st))"

text \<open>\<^verbatim>\<open>x or ""\<close> for an optional string.\<close>

definition or_empty :: "string option \<Rightarrow> string" where
  "or_empty x = (case x of None \<Rightarrow> [] | Some v \<Rightarrow> v)"

definition get_user_login_url :: "os_state \<Rightarrow> string res \<times> os_state" where
  "get_user_login_url st =
     then_do (get ''common info'' ''user_login_url'' None (Some ''ADMIN_LOGIN_URL'') st)
       (\<lambda>v st'. (Inr (or_empty v), st'))"

definition get_user_email :: "os_state \<Rightarrow> string res \<times> os_state" where
  "get_user_email st =
     then_do (get ''common info'' ''user_email'' None (Some ''ADMIN_EMAIL'') st)
       (\<lambda>v st'. (Inr (or_empty v), st'))"

definition get_user_password :: "os_state \<Rightarrow> string res \<times> os_state" where
  "get_user_password st =
     then_do (get ''common info'' ''user_password'' None (Some ''ADMIN_PASSWORD'') st)
       (\<lambda>v st'. (Inr (or_empty v), st'))"

definition get_search_item_name :: "os_state \<Rightarrow> string res \<times> os_state" where
  "get_search_item_name st =
     then_do (get ''common info'' ''search_item'' None None st)
       (\<lambda>v st'. (Inr (or_empty v), st'))"

definition get_emp_initial_name :: "os_state \<Rightarrow> string res \<times> os_state" where
  "get_emp_initial_name st =
     then_do (get ''common info'' ''pim_emp_name'' None (Some ''ADMIN_PASSWORD'') st)
       (\<lambda>v st'. (Inr (or_empty v), st'))"

section \<open>\<^verbatim>\<open>pageobjects/base_page.py\<close>\<close>

subsection \<open>The browser session\<close>

text \<open>
  The Selenium driver is external: it is a record of operations on an opaque
  browser state \<open>'w\<close>, each returning its value or the exception it raised,
  and the browser state it leaves.  \<^verbatim>\<open>WebDriverWait(driver, t).until(c)\<close> is
  one such operation, for the four conditions the page layer waits on; it
  raises \<^verbatim>\<open>TimeoutException\<close> when the condition does not hold in time.
  \<open>drv_latency\<close> is the time in milliseconds that a call took, read off the
  state it leaves.
\<close>

type_synonym locator = "string \<times> string"

type_synonym elem = nat

datatype condition =
    ReadyStateComplete
  | Presence locator
  | Visibility locator
  | Clickable locator

datatype key = CONTROL | DELETE | ENTER | TAB

datatype keys = Key key | Text string

datatype script_arg = ArgElem elem | ArgStr string

record 'w driver =
  drv_get :: "string \<Rightarrow> 'w \<Rightarrow> unit res \<times> 'w"
  drv_wait_until :: "condition \<Rightarrow> int \<Rightarrow> 'w \<Rightarrow> elem res \<times> 'w"
  drv_find_elements :: "locator \<Rightarrow> 'w \<Rightarrow> elem list res \<times> 'w"
  drv_click :: "elem \<Rightarrow> 'w \<Rightarrow> unit res \<times> 'w"
  drv_clear :: "elem \<Rightarrow> 'w \<Rightarrow> unit res \<times> 'w"
  drv_send_keys :: "elem \<Rightarrow> keys list \<Rightarrow> 'w \<Rightarrow> unit res \<times> 'w"
  drv_get_attribute :: "elem \<Rightarrow> string \<Rightarrow> 'w \<Rightarrow> string option res \<times> 'w"
  drv_text :: "elem \<Rightarrow> 'w \<Rightarrow> string res \<times> 'w"
  drv_execute_script :: "string \<Rightarrow> script_arg list \<Rightarrow> 'w \<Rightarrow> unit res \<times> 'w"
  drv_save_screenshot :: "string \<Rightarrow> 'w \<Rightarrow> unit res \<times> 'w"
  drv_latency :: "'w \<Rightarrow> nat"

text \<open>
  What a test run can observe of a call: the commands sent to the driver and
  the sleeps.
\<close>

datatype event =
    Get string
  | WaitUntil condition int
  | FindElements locator
  | Click elem
  | Clear elem
  | SendKeys elem "keys list"
  | GetAttribute elem string
  | GetText elem
  | ExecuteScript string "script_arg list"
  | SaveScreenshot string
  | Sleep int

text \<open>
  The state of a run: the clock (\<^verbatim>\<open>time.time()\<close>, in milliseconds), the
  browser, the process environment, and the events so far.
\<close>

record 'w session =
  now :: int
  page :: 'w
  os :: os_state
  trace :: "event list"

text \<open>
  \<^verbatim>\<open>self\<close>: the driver and the default timeout in seconds, with the two
  library functions that format a file name and a failure message:
  \<^verbatim>\<open>time.strftime("%Y%m%d_%H%M%S")\<close> at a clock value, and \<^verbatim>\<open>str\<close> of a
  locator tuple.
\<close>

record 'w base_page =
  driver :: "'w driver"
  default_timeout :: int
  strftime :: "int \<Rightarrow> string"
  str_locator :: "locator \<Rightarrow> string"

text \<open>
  One driver call: the browser moves on, the clock advances by the call's
  latency, and the command is logged.
\<close>

definition call :: "event \<Rightarrow> ('w \<Rightarrow> 'a res \<times> 'w) \<Rightarrow> 'w base_page \<Rightarrow> 'w session
    \<Rightarrow> 'a res \<times> 'w session" where
  "call ev f bp s =
     (case f (page s) of
        (r, w') \<Rightarrow>
          (r, s\<lparr>now := now s + int (drv_latency (driver bp) w'),
                page := w', trace := trace s @ [ev]\<rparr>))"

text \<open>\<^verbatim>\<open>time.sleep\<close>, in milliseconds.\<close>

definition sleep :: "int \<Rightarrow> 'w session \<Rightarrow> 'w session" where
  "sleep ms s = s\<lparr>now := now s + ms, trace := trace s @ [Sleep ms]\<rparr>"

definition driver_get :: "'w base_page \<Rightarrow> string \<Rightarrow> 'w session \<Rightarrow> unit res \<times> 'w session" where
  "driver_get bp url s = call (Get url) (drv_get (driver bp) url) bp s"

definition wait_until ::
  "'w base_page \<Rightarrow> condition \<Rightarrow> int \<Rightarrow> 'w session \<Rightarrow> elem res \<times> 'w session" where
  "wait_until bp c t s = call (WaitUntil c t) (drv_wait_until (driver bp) c t) bp s"

definition find_elements ::
  "'w base_page \<Rightarrow> locator \<Rightarrow> 'w session \<Rightarrow> elem list res \<times> 'w session" where
  "find_elements bp loc s = call (FindElements loc) (drv_find_elements (driver bp) loc) bp s"

definition el_click :: "'w base_page \<Rightarrow> elem \<Rightarrow> 'w session \<Rightarrow> unit res \<times> 'w session" where
  "el_click bp el s = call (Click el) (drv_click (driver bp) el) bp s"

definition el_clear :: "'w base_page \<Rightarrow> elem \<Rightarrow> 'w session \<Rightarrow> unit res \<times> 'w session" where
  "el_clear bp el s = call (Clear el) (drv_clear (driver bp) el) bp s"

definition el_send_keys ::
  "'w base_page \<Rightarrow> elem \<Rightarrow> keys list \<Rightarrow> 'w session \<Rightarrow> unit res \<times> 'w session" where
  "el_send_keys bp el ks s = call (SendKeys el ks) (drv_send_keys (driver bp) el ks) bp s"

definition el_get_attribute ::
  "'w base_page \<Rightarrow> elem \<Rightarrow> string \<Rightarrow> 'w session \<Rightarrow> string option res \<times> 'w session" where
  "el_get_attribute bp el a s =
     call (GetAttribute el a) (drv_get_attribute (driver bp) el a) bp s"

definition el_text :: "'w base_page \<Rightarrow> elem \<Rightarrow> 'w session \<Rightarrow> string res \<times> 'w session" where
  "el_text bp el s = call (GetText el) (drv_text (driver bp) el) bp s"

definition execute_script ::
  "'w base_page \<Rightarrow> string \<Rightarrow> script_arg list \<Rightarrow> 'w session \<Rightarrow> unit res \<times> 'w session" where
  "execute_script bp script args s =
     call (ExecuteScript script args) (drv_execute_script (driver bp) script args) bp s"

subsection \<open>Handlers\<close>

text \<open>
  \<^verbatim>\<open>try: m except C: h\<close>: an exception of \<open>m\<close> in class \<open>C\<close> runs the
  handler in the state the failed call left; any other exception propagates.
  Every exception of the model is an \<^verbatim>\<open>Exception\<close>.
\<close>

definition try_except ::
  "'a res \<times> 's \<Rightarrow> (exn \<Rightarrow> bool) \<Rightarrow> (exn \<Rightarrow> 's \<Rightarrow> 'a res \<times> 's) \<Rightarrow> 'a res \<times> 's" where
  "try_except m C h =
     (case m of
        (Inl e, s) \<Rightarrow> if C e then h e s else (Inl e, s)
      | (Inr a, s) \<Rightarrow> (Inr a, s))"

definition is_Exception :: "exn \<Rightarrow> bool" where
  "is_Exception e = True"

text \<open>\<^verbatim>\<open>pass\<close> in a handler.\<close>

definition pass :: "exn \<Rightarrow> 's \<Rightarrow> unit res \<times> 's" where
  "pass e s = (Inr (), s)"

subsection \<open>Waits, screenshots and navigation\<close>

text \<open>\<^verbatim>\<open>timeout if timeout is not None else self.default_timeout\<close>.\<close>

definition timeout_or_default :: "'w base_page \<Rightarrow> int option \<Rightarrow> int" where
  "timeout_or_default bp timeout = (case timeout of Some t \<Rightarrow> t | None \<Rightarrow> default_timeout bp)"

text \<open>\<^verbatim>\<open>BasePage._wait\<close>, \<^verbatim>\<open>find_visible\<close> and \<^verbatim>\<open>find_clickable\<close>.\<close>

definition wait :: "'w base_page \<Rightarrow> condition \<Rightarrow> int option \<Rightarrow> 'w session
    \<Rightarrow> elem res \<times> 'w session" where
  "wait bp c timeout s = wait_until bp c (timeout_or_default bp timeout) s"

definition find_visible :: "'w base_page \<Rightarrow> locator \<Rightarrow> int option \<Rightarrow> 'w session
    \<Rightarrow> elem res \<times> 'w session" where
  "find_visible bp locator timeout s = wait bp (Visibility locator) timeout s"

definition find_clickable :: "'w base_page \<Rightarrow> locator \<Rightarrow> int option \<Rightarrow> 'w session
    \<Rightarrow> elem res \<times> 'w session" where
  "find_clickable bp locator timeout s = wait bp (Clickable locator) timeout s"

text \<open>
  \<^verbatim>\<open>BasePage.save_screenshot\<close>: \<^verbatim>\<open>name or f"screenshots/snap_{ts}.png"\<close>
  takes the default for \<open>None\<close> and for the empty name.
\<close>

definition save_screenshot :: "'w base_page \<Rightarrow> string option \<Rightarrow> 'w session
    \<Rightarrow> string res \<times> 'w session" where
  "save_screenshot bp name s =
     (let ts = strftime bp (now s);
          fname = (if or_empty name = [] then ''screenshots/snap_'' @ ts @ ''.png''
                   else or_empty name)
      in then_do (call (SaveScreenshot fname) (drv_save_screenshot (driver bp) fname) bp s)
           (\<lambda>_ s'. (Inr fname, s')))"

text \<open>\<^verbatim>\<open>int(time.time())\<close>, formatted into a file name.\<close>

definition stamp :: "'w session \<Rightarrow> string" where
  "stamp s = str_int (now s div 1000)"

text \<open>\<^verbatim>\<open>url.startswith(("http://", "https://"))\<close>.\<close>

definition is_absolute :: "string \<Rightarrow> bool" where
  "is_absolute url = (startswith url ''http://'' \<or> startswith url ''https://'')"

text \<open>\<^verbatim>\<open>BasePage.open_url\<close>.\<close>

definition open_url :: "'w base_page \<Rightarrow> string \<Rightarrow> locator option \<Rightarrow> int option
    \<Rightarrow> 'w session \<Rightarrow> unit res \<times> 'w session" where
  "open_url bp url wait_for_locator timeout s =
     (if url = [] then (Inl (ValueError ''url must be a non-empty string''), s)
      else if \<not> is_absolute url then
        (Inl (ValueError ''open_url expects a full url starting with http:// or https://''), s)
      else
        let t = timeout_or_default bp timeout in
        then_do
          (try_except (driver_get bp url s) is_WebDriverException (\<lambda>e s1.
             then_do
               (save_screenshot bp (Some (''screenshots/open_url_error_'' @ stamp s1 @ ''.png'')) s1)
               (\<lambda>_ s2. (Inl e, s2))))
          (\<lambda>_ s1.
        then_do
          (try_except (then_do (wait_until bp ReadyStateComplete t s1) (\<lambda>_ s2. (Inr (), s2)))
             is_TimeoutException (\<lambda>e s2.
             then_do
               (save_screenshot bp
                  (Some (''screenshots/open_url_readystate_timeout_'' @ stamp s2 @ ''.png'')) s2)
               (\<lambda>_ s3. (Inr (), s3))))
          (\<lambda>_ s3.
        case wait_for_locator of
          None \<Rightarrow> (Inr (), s3)
        | Some loc \<Rightarrow>
            try_except (then_do (wait_until bp (Visibility loc) t s3) (\<lambda>_ s4. (Inr (), s4)))
              is_TimeoutException (\<lambda>e s4.
              then_do
                (save_screenshot bp
                   (Some (''screenshots/open_url_wait_for_locator_timeout_'' @ stamp s4 @ ''.png''))
                   s4)
                (\<lambda>fname s5.
                   (Inl (AssertionError (''Timed out waiting for locator '' @ str_locator bp loc
                           @ ''. Screenshot: '' @ fname)), s5))))))"

text \<open>
  \<^verbatim>\<open>BasePage.open\<close>.  The base URL comes from
  \<^verbatim>\<open>ReadConfig.get_user_login_url()\<close>; only when that call raises is it
  \<^verbatim>\<open>os.getenv("BASE_URL", "").strip()\<close>.
\<close>

definition resolve_base :: "os_state \<Rightarrow> string \<times> os_state" where
  "resolve_base st =
     (case get_user_login_url st of
        (Inr base, st') \<Rightarrow> (base, st')
      | (Inl e, st') \<Rightarrow> (strip (or_empty (environ st' ''BASE_URL'')), st'))"

definition open_page :: "'w base_page \<Rightarrow> string \<Rightarrow> locator option \<Rightarrow> int option
    \<Rightarrow> 'w session \<Rightarrow> unit res \<times> 'w session" where
  "open_page bp path_or_url wait_for_locator timeout s =
     (if is_absolute path_or_url then open_url bp path_or_url wait_for_locator timeout s
      else case resolve_base (os s) of
        (base, st') \<Rightarrow>
          if base = [] then
            (Inl (RuntimeError
               ''Base URL not configured. Set ReadConfig.get_application_url() or env BASE_URL''),
             s\<lparr>os := st'\<rparr>)
          else
            let full = rstrip_slash base @ ''/'' @ lstrip_slash path_or_url
            in open_url bp full wait_for_locator timeout (s\<lparr>os := st'\<rparr>))"

subsection \<open>Locating all matches\<close>

text \<open>
  The loop of \<^verbatim>\<open>BasePage.get_element_list\<close>, from a state in which
  \<^verbatim>\<open>end\<close> is computed.  Each round that finds nothing sleeps 150 ms, so
  the distance to \<^verbatim>\<open>end\<close> shrinks.
\<close>

function get_element_list_loop ::
  "'w base_page \<Rightarrow> locator \<Rightarrow> int \<Rightarrow> 'w session \<Rightarrow> elem list res \<times> 'w session" where
  "get_element_list_loop bp locator end s =
     (if now s < end then
        (case find_elements bp locator s of
           (Inl e, s1) \<Rightarrow> (Inl e, s1)
         | (Inr elems, s1) \<Rightarrow>
             if elems \<noteq> [] then (Inr elems, s1)
             else get_element_list_loop bp locator end (sleep 150 s1))
      else (Inr [], s))"
  by pat_completeness auto
termination
  by (relation "measure (\<lambda>(bp, locator, end, s). nat (end - now s))")
     (auto simp: find_elements_def call_def sleep_def split: prod.splits)

declare get_element_list_loop.simps [simp del]

definition get_element_list :: "'w base_page \<Rightarrow> locator \<Rightarrow> int option \<Rightarrow> 'w session
    \<Rightarrow> elem list res \<times> 'w session" where
  "get_element_list bp locator timeout s =
     (let t = timeout_or_default bp timeout;
          end = now s + 1000 * t
      in get_element_list_loop bp locator end s)"

subsection \<open>Clicking\<close>

text \<open>\<^verbatim>\<open>BasePage.click\<close>.\<close>

definition click_script :: string where
  "click_script = ''arguments[0].click();''"

definition click :: "'w base_page \<Rightarrow> locator \<Rightarrow> int option \<Rightarrow> 'w session
    \<Rightarrow> unit res \<times> 'w session" where
  "click bp locator timeout s =
     then_do (find_clickable bp locator timeout s) (\<lambda>el s1.
       try_except (el_click bp el s1) is_WebDriverException (\<lambda>e s2.
         execute_script bp click_script [ArgElem el] s2))"

subsection \<open>Typing with verification\<close>

text \<open>
  \<^verbatim>\<open>(el.get_attribute("value") or el.text or "").strip()\<close>: the text is read
  when the attribute is absent or empty.
\<close>

definition read_value :: "'w base_page \<Rightarrow> elem \<Rightarrow> 'w session \<Rightarrow> string res \<times> 'w session" where
  "read_value bp el s =
     then_do (el_get_attribute bp el ''value'' s) (\<lambda>v s1.
       if or_empty v \<noteq> [] then (Inr (strip (or_empty v)), s1)
       else then_do (el_text bp el s1) (\<lambda>tx s2. (Inr (strip tx), s2)))"

text \<open>\<^verbatim>\<open>last_val == text or (allow_partial and text in last_val)\<close>.\<close>

definition matches :: "bool \<Rightarrow> string \<Rightarrow> string \<Rightarrow> bool" where
  "matches allow_partial text last_val =
     (last_val = text \<or> (allow_partial \<and> contains last_val text))"

text \<open>
  The polling loop of \<^verbatim>\<open>type_and_verify\<close>.  It returns whether it left by
  \<^verbatim>\<open>return last_val\<close>, and \<^verbatim>\<open>last_val\<close>; a read that raises sets
  \<^verbatim>\<open>last_val\<close> to the empty string.
\<close>

function poll_value ::
  "'w base_page \<Rightarrow> elem \<Rightarrow> string \<Rightarrow> bool \<Rightarrow> int \<Rightarrow> string \<Rightarrow> 'w session
     \<Rightarrow> (bool \<times> string) \<times> 'w session" where
  "poll_value bp el text allow_partial end last_val s =
     (if now s < end then
        (case read_value bp el s of
           (r, s1) \<Rightarrow>
             let last_val = (case r of Inr v \<Rightarrow> v | Inl e \<Rightarrow> [])
             in if matches allow_partial text last_val then ((True, last_val), s1)
                else poll_value bp el text allow_partial end last_val (sleep 120 s1))
      else ((False, last_val), s))"
  by pat_completeness auto
termination
  by (relation "measure (\<lambda>(bp, el, text, allow_partial, end, last_val, s). nat (end - now s))")
     (auto simp: read_value_def el_get_attribute_def el_text_def call_def sleep_def
        then_do_def Let_def split: prod.splits sum.splits if_splits)

declare poll_value.simps [simp del]

definition set_value_script :: string where
  "set_value_script =
     ''arguments[0].value = arguments[1];''
     @ ''arguments[0].dispatchEvent(new Event('' @ [CHR 39] @ ''input'' @ [CHR 39] @ ''));''
     @ ''arguments[0].dispatchEvent(new Event('' @ [CHR 39] @ ''change'' @ [CHR 39] @ ''));''"

text \<open>
  The fallback of \<^verbatim>\<open>type_and_verify\<close>: the script, a sleep of 120 ms and
  one more read, all under \<^verbatim>\<open>except Exception: pass\<close>.  Whether the read
  value matches or not, it is returned; when the script or the read raises,
  the value of the polling loop is.
\<close>

definition js_fallback :: "'w base_page \<Rightarrow> elem \<Rightarrow> string \<Rightarrow> bool \<Rightarrow> string \<Rightarrow> 'w session
    \<Rightarrow> string res \<times> 'w session" where
  "js_fallback bp el text allow_partial last_val s =
     (case execute_script bp set_value_script [ArgElem el, ArgStr text] s of
        (Inl e, s1) \<Rightarrow> (Inr last_val, s1)
      | (Inr _, s1) \<Rightarrow>
          (case read_value bp el (sleep 120 s1) of
             (Inl e, s2) \<Rightarrow> (Inr last_val, s2)
           | (Inr v, s2) \<Rightarrow>
               if matches allow_partial text v then (Inr v, s2) else (Inr v, s2)))"

text \<open>
  The first part of \<^verbatim>\<open>type_and_verify\<close>, up to the \<^verbatim>\<open>TAB\<close> key: it
  returns the element.
\<close>

definition type_keys :: "'w base_page \<Rightarrow> locator \<Rightarrow> string \<Rightarrow> int option \<Rightarrow> bool \<Rightarrow> bool
    \<Rightarrow> 'w session \<Rightarrow> elem res \<times> 'w session" where
  "type_keys bp locator text timeout clear_first send_enter s =
     then_do (find_visible bp locator timeout s) (\<lambda>el s1.
     then_do (try_except (el_click bp el s1) is_WebDriverException pass) (\<lambda>_ s2.
     then_do
       (if clear_first then
          try_except (el_clear bp el s2) is_WebDriverException (\<lambda>e s3.
            try_except (el_send_keys bp el [Key CONTROL, Text ''a'', Key DELETE] s3)
              is_Exception pass)
        else (Inr (), s2)) (\<lambda>_ s4.
     then_do (el_send_keys bp el [Text text] s4) (\<lambda>_ s5.
     then_do (if send_enter then el_send_keys bp el [Key ENTER] s5 else (Inr (), s5)) (\<lambda>_ s6.
     then_do (try_except (el_send_keys bp el [Key TAB] s6) is_Exception pass) (\<lambda>_ s7.
       (Inr el, s7)))))))"

text \<open>The rest of \<^verbatim>\<open>type_and_verify\<close>: the polling loop and the fallback.\<close>

definition verify_value :: "'w base_page \<Rightarrow> elem \<Rightarrow> string \<Rightarrow> int option \<Rightarrow> bool
    \<Rightarrow> 'w session \<Rightarrow> string res \<times> 'w session" where
  "verify_value bp el text timeout allow_partial s =
     (let t = timeout_or_default bp timeout;
          end = now s + 1000 * t
      in case poll_value bp el text allow_partial end [] s of
           ((True, last_val), s1) \<Rightarrow> (Inr last_val, s1)
         | ((False, last_val), s1) \<Rightarrow> js_fallback bp el text allow_partial last_val s1)"

definition type_and_verify :: "'w base_page \<Rightarrow> locator \<Rightarrow> string \<Rightarrow> int option \<Rightarrow> bool
    \<Rightarrow> bool \<Rightarrow> bool \<Rightarrow> 'w session \<Rightarrow> string res \<times> 'w session" where
  "type_and_verify bp locator text timeout clear_first allow_partial send_enter s =
     then_do (type_keys bp locator text timeout clear_first send_enter s) (\<lambda>el s1.
       verify_value bp el text timeout allow_partial s1)"

subsection \<open>Reading a trace\<close>

text \<open>
  The navigations, the script calls and the sleeps in a list of events.
\<close>

fun is_Get :: "event \<Rightarrow> bool" where
  "is_Get (Get url) = True"
| "is_Get ev = False"

fun is_ExecuteScript :: "event \<Rightarrow> bool" where
  "is_ExecuteScript (ExecuteScript script args) = True"
| "is_ExecuteScript ev = False"

definition navigations :: "event list \<Rightarrow> nat" where
  "navigations tr = length (filter is_Get tr)"

definition scripts :: "event list \<Rightarrow> nat" where
  "scripts tr = length (filter is_ExecuteScript tr)"

fun sleeps :: "event list \<Rightarrow> int list" where
  "sleeps [] = []"
| "sleeps (Sleep ms # tr) = ms # sleeps tr"
| "sleeps (ev # tr) = sleeps tr"

text \<open>What a read inside the polling loop leaves in \<^verbatim>\<open>last_val\<close>.\<close>

definition value_of :: "string res \<Rightarrow> string" where
  "value_of r = (case r of Inl e \<Rightarrow> [] | Inr v \<Rightarrow> v)"

subsection \<open>Rounds of the two polling loops\<close>

text \<open>
  One round of the loop of \<^verbatim>\<open>get_element_list\<close> that found nothing: the
  state in which the loop tests the clock again, after \<^verbatim>\<open>find_elements\<close>
  and the sleep of 150 ms.
\<close>

definition next_look :: "'w base_page \<Rightarrow> locator \<Rightarrow> 'w session \<Rightarrow> 'w session" where
  "next_look bp locator s = sleep 150 (snd (find_elements bp locator s))"

text \<open>
  One round of the loop of \<^verbatim>\<open>type_and_verify\<close> that did not match: the
  value the read left in \<^verbatim>\<open>last_val\<close>, and the state in which the loop tests
  the clock again, after the read and the sleep of 120 ms.
\<close>

definition seen :: "'w base_page \<Rightarrow> elem \<Rightarrow> 'w session \<Rightarrow> string" where
  "seen bp el s = value_of (fst (read_value bp el s))"

definition next_poll :: "'w base_page \<Rightarrow> elem \<Rightarrow> 'w session \<Rightarrow> 'w session" where
  "next_poll bp el s = sleep 120 (snd (read_value bp el s))"

section \<open>Concrete environments for the examples\<close>

definition demo_os :: os_state where
  "demo_os =
     \<lparr>environ = [''ADMIN_PASSWORD'' \<mapsto> ''s3cret'', ''SEARCH_ITEM'' \<mapsto> ''from-env''],
      config_file = Some [(''common info'', ''user_password'') \<mapsto> ''file-pw'',
                          (''common info'', ''pim_emp_name'') \<mapsto> ''Alice'',
                          (''common info'', ''search_item'') \<mapsto> ''from-file''],
      rc_config = None\<rparr>"

definition demo_os2 :: os_state where
  "demo_os2 =
     \<lparr>environ = [''ADMIN_LOGIN_URL'' \<mapsto> ''http://host/'', ''ADMIN_EMAIL'' \<mapsto> ''env@x'',
                 ''ADMIN_PASSWORD'' \<mapsto> ''s3cret''],
      config_file = Some [(''common info'', ''user_login_url'') \<mapsto> ''http://file-host/'',
                          (''common info'', ''user_email'') \<mapsto> ''file@x'',
                          (''common info'', ''user_password'') \<mapsto> ''file-pw'',
                          (''common info'', ''search_item'') \<mapsto> ''from-file''],
      rc_config = None\<rparr>"

text \<open>
  A browser for the examples: its state counts the calls.  The page never
  reports ready, the locator \<open>//missing\<close> never becomes visible and matches
  nothing, a native click is intercepted, and the input field holds
  \<open>abd\<close> as its text, whatever is typed or assigned.  Every call takes
  400 ms.
\<close>

definition demo_driver :: "nat driver" where
  "demo_driver =
     \<lparr>drv_get = (\<lambda>url w. (Inr (), Suc w)),
      drv_wait_until = (\<lambda>c t w.
         if c = ReadyStateComplete then (Inl (TimeoutException ''ready''), Suc w)
         else if c = Visibility (''xpath'', ''//missing'')
           then (Inl (TimeoutException ''visible''), Suc w)
         else (Inr 7, Suc w)),
      drv_find_elements = (\<lambda>loc w. (Inr [], Suc w)),
      drv_click = (\<lambda>el w. (Inl (WebDriverException ''click intercepted''), Suc w)),
      drv_clear = (\<lambda>el w. (Inr (), Suc w)),
      drv_send_keys = (\<lambda>el ks w. (Inr (), Suc w)),
      drv_get_attribute = (\<lambda>el a w. (Inr None, Suc w)),
      drv_text = (\<lambda>el w. (Inr '' abd '', Suc w)),
      drv_execute_script = (\<lambda>script args w. (Inr (), Suc w)),
      drv_save_screenshot = (\<lambda>fname w. (Inr (), Suc w)),
      drv_latency = (\<lambda>w. 400)\<rparr>"

definition demo_page :: "nat base_page" where
  "demo_page =
     \<lparr>driver = demo_driver, default_timeout = 8,
      strftime = (\<lambda>t. ''20240101_000000''),
      str_locator = (\<lambda>loc. ''('' @ fst loc @ '', '' @ snd loc @ '')'')\<rparr>"

definition demo_session :: "nat session" where
  "demo_session = \<lparr>now = 5000, page = 0, os = demo_os2, trace = []\<rparr>"

text \<open>
  The same browser, except that the locator matches nothing in the first two
  looks and two elements from the third look on.
\<close>

definition late_driver :: "nat driver" where
  "late_driver =
     demo_driver\<lparr>drv_find_elements := (\<lambda>loc w. (if w < 2 then Inr [] else Inr [3, 4], Suc w))\<rparr>"

definition late_page :: "nat base_page" where
  "late_page = demo_page\<lparr>driver := late_driver\<rparr>"

text \<open>
  The same browser, except that the value attribute of the field reads
  \<open>X\<close> in the first \<open>k\<close> calls and the element is stale afterwards.
\<close>

definition stale_driver :: "nat \<Rightarrow> nat driver" where
  "stale_driver k =
     demo_driver\<lparr>drv_get_attribute := (\<lambda>el a w.
       (if w < k then Inr (Some ''X'') else Inl (WebDriverException ''stale''), Suc w))\<rparr>"

definition stale_page :: "nat \<Rightarrow> nat base_page" where
  "stale_page k = demo_page\<lparr>driver := stale_driver k\<rparr>"

text \<open>The state of the example session once the keys are sent to the field.\<close>

definition demo_typed :: "nat session" where
  "demo_typed =
     \<lparr>now = 7000, page = 5, os = demo_os2,
      trace = [WaitUntil (Visibility (''xpath'', ''//input'')) 1, Click 7, Clear 7,
               SendKeys 7 [Text ''abc''], SendKeys 7 [Key TAB]]\<rparr>"

section \<open>Properties of the data generator\<close>

lemma then_do_Inr [simp]: "then_do (Inr a, s) f = f a s"
  by (simp add: then_do_def)

lemma then_do_Inl [simp]: "then_do (Inl e, s) f = (Inl e, s)"
  by (simp add: then_do_def)

lemma choice_nonempty:
  "seq \<noteq> [] \<Longrightarrow> \<exists>c r'. choice seq r = (Inr c, r') \<and> c \<in> set seq"
  by (auto simp: choice_def randbelow_def draw_def)

lemma choices_n_nonempty:
  "seq \<noteq> [] \<Longrightarrow>
   \<exists>cs r'. choices_n seq k r = (Inr cs, r') \<and> length cs = k \<and> set cs \<subseteq> set seq"
proof (induction k arbitrary: r)
  case 0
  then show ?case by simp
next
  case (Suc k)
  from choice_nonempty [OF Suc.prems, of r]
  obtain c r1 where c: "choice seq r = (Inr c, r1)" "c \<in> set seq" by blast
  from Suc.IH [OF Suc.prems, of r1]
  obtain cs r2 where cs: "choices_n seq k r1 = (Inr cs, r2)" "length cs = k" "set cs \<subseteq> set seq"
    by blast
  from c cs show ?case by simp
qed

lemma choices_nonempty:
  "seq \<noteq> [] \<Longrightarrow>
   \<exists>cs r'. choices seq k r = (Inr cs, r') \<and> length cs = nat k \<and> set cs \<subseteq> set seq"
  unfolding choices_def by (rule choices_n_nonempty)

lemma digits_nonempty: "digits \<noteq> []"
  by (simp add: digits_def)

lemma ascii_uppercase_nonempty: "ascii_uppercase \<noteq> []"
  by (simp add: ascii_uppercase_def)

lemma ascii_lowercase_nonempty: "ascii_lowercase \<noteq> []"
  by (simp add: ascii_lowercase_def)

lemma nonzero_digits_nonempty: "''123456789'' \<noteq> []"
  by simp

lemma specials_nonempty: "''!@#$%'' \<noteq> []"
  by simp

lemma pool_nonempty: "ascii_letters @ digits @ ''!@#$%'' \<noteq> []"
  by simp

lemma employee_id_shape:
  "\<exists>s r'. employee_id len False r = (Inr s, r')
     \<and> length s = nat (max len 1)
     \<and> hd s \<in> set ''123456789''
     \<and> set s \<subseteq> set digits"
proof -
  obtain c r1 where c: "choice ''123456789'' r = (Inr c, r1)" "c \<in> set ''123456789''"
    using choice_nonempty [OF nonzero_digits_nonempty, of r] by blast
  have cd: "c \<in> set digits" using c(2) unfolding digits_def by simp
  show ?thesis
  proof (cases "len > 1")
    case True
    obtain cs r2 where cs: "choices digits (len - 1) r1 = (Inr cs, r2)"
      "length cs = nat (len - 1)" "set cs \<subseteq> set digits"
      using choices_nonempty [OF digits_nonempty, of "len - 1" r1] by blast
    have run: "employee_id len False r = (Inr (c # cs), r2)"
      using True c(1) cs(1) by (simp add: employee_id_def)
    have len: "length (c # cs) = nat (max len 1)" using True cs(2) by simp
    have first: "hd (c # cs) \<in> set ''123456789''" using c(2) by simp
    have all: "set (c # cs) \<subseteq> set digits" using cd cs(3) by simp
    from run len first all show ?thesis by blast
  next
    case False
    have run: "employee_id len False r = (Inr [c], r1)"
      using False c(1) by (simp add: employee_id_def)
    have len: "length [c] = nat (max len 1)" using False by simp
    have first: "hd [c] \<in> set ''123456789''" using c(2) by simp
    have all: "set [c] \<subseteq> set digits" using cd by simp
    from run len first all show ?thesis by blast
  qed
qed

text \<open>
  C10.  With \<^verbatim>\<open>allow_leading_zero=False\<close>, \<^verbatim>\<open>employee_id\<close> returns, for every
  length argument and every random outcome, a string of decimal digits whose
  first character is one of 1 to 9 and whose length is \<open>max length 1\<close>: a
  single non-zero digit for every length up to 1, zero and the negative
  lengths included.
\<close>

theorem employee_id_no_leading_zero:
  "\<exists>s r'. employee_id len False r = (Inr s, r')
     \<and> length s = nat (max len 1)
     \<and> hd s \<in> set ''123456789''
     \<and> set s \<subseteq> set digits"
  by (rule employee_id_shape)

lemma password_defaults_return:
  "\<exists>pwd r'. password len 1 1 1 1 ''!@#$%'' r = (Inr pwd, r')"
proof -
  obtain p1 r1 where p1: "choices ascii_uppercase 1 r = (Inr p1, r1)"
    using choices_nonempty [OF ascii_uppercase_nonempty, of 1 r] by blast
  obtain p2 r2 where p2: "choices ascii_lowercase 1 r1 = (Inr p2, r2)"
    using choices_nonempty [OF ascii_lowercase_nonempty, of 1 r1] by blast
  obtain p3 r3 where p3: "choices digits 1 r2 = (Inr p3, r3)"
    using choices_nonempty [OF digits_nonempty, of 1 r2] by blast
  obtain p4 r4 where p4: "choices ''!@#$%'' 1 r3 = (Inr p4, r4)"
    using choices_nonempty [OF specials_nonempty, of 1 r3] by blast
  define k where "k = len - int (length (p1 @ p2 @ p3 @ p4))"
  obtain p5 r5 where p5: "choices (ascii_letters @ digits @ ''!@#$%'') k r4 = (Inr p5, r5)"
    using choices_nonempty [OF pool_nonempty, of k r4] by blast
  obtain pool r6 where sh: "shuffle ((p1 @ p2 @ p3 @ p4) @ p5) r5 = (pool, r6)"
    by (cases "shuffle ((p1 @ p2 @ p3 @ p4) @ p5) r5") auto
  have "password len 1 1 1 1 ''!@#$%'' r = (Inr pool, r6)"
    using p1 p2 p3 p4 p5 sh by (simp add: password_def Let_def k_def)
  then show ?thesis by blast
qed

text \<open>
  C9.  For all arguments and all random outcomes,
  \<^verbatim>\<open>generate_employee_with_credentials\<close> returns a record, and the record's
  \<^verbatim>\<open>confirm_password\<close> field is present and equal to its \<^verbatim>\<open>password\<close> field.
\<close>

theorem generate_employee_confirm_password:
  "\<exists>emp pwd r'.
     generate_employee_with_credentials fk id_length username_length password_length r
       = (Inr emp, r')
     \<and> emp ''password'' = Some pwd \<and> emp ''confirm_password'' = Some pwd"
proof -
  obtain f r1 where f: "first_name fk r = (f, r1)" by (cases "first_name fk r") auto
  obtain m r2 where m: "middle_name fk r1 = (m, r2)" by (cases "middle_name fk r1") auto
  obtain l r3 where l: "last_name fk r2 = (l, r3)" by (cases "last_name fk r2") auto
  obtain eid r4 where eid: "employee_id id_length False r3 = (Inr eid, r4)"
    using employee_id_shape [of id_length r3] by blast
  obtain pwd r5 where pwd: "password password_length 1 1 1 1 ''!@#$%'' r4 = (Inr pwd, r5)"
    using password_defaults_return [of password_length r4] by blast
  define emp where "emp = [''first_name'' \<mapsto> f, ''middle_name'' \<mapsto> m, ''last_name'' \<mapsto> l,
     ''employee_id'' \<mapsto> eid,
     ''username'' \<mapsto> username_from_name f (Some m) l username_length,
     ''password'' \<mapsto> pwd, ''confirm_password'' \<mapsto> pwd]"
  have run: "generate_employee_with_credentials fk id_length username_length password_length r
       = (Inr emp, r5)"
    unfolding generate_employee_with_credentials_def emp_def Let_def
    by (simp only: f m l eid pwd prod.case then_do_Inr)
  have p: "emp ''password'' = Some pwd"
    unfolding emp_def by simp
  have c: "emp ''confirm_password'' = Some pwd"
    unfolding emp_def by simp
  from run p c show ?thesis by blast
qed

section \<open>Properties of the configuration lookup\<close>

lemma get_env_set:
  "ev \<noteq> [] \<Longrightarrow> environ st ev = Some v \<Longrightarrow>
   get section key fallback (Some ev) st = (Inr (Some v), st)"
  by (simp add: get_def)

lemma get_no_env_var:
  "get section key fallback None (st\<lparr>environ := e\<rparr>)
     = (case get section key fallback None st of (r, st') \<Rightarrow> (r, st'\<lparr>environ := e\<rparr>))"
  by (simp add: get_def get_raw_def ensure_loaded_def then_do_def split: option.splits)

text \<open>
  C5, as stated, fails.  In an environment that sets \<^verbatim>\<open>ADMIN_PASSWORD\<close> and
  \<^verbatim>\<open>SEARCH_ITEM\<close>, with a configuration file that has \<^verbatim>\<open>pim_emp_name\<close> and
  \<^verbatim>\<open>search_item\<close>: the initial employee name lookup returns the value of
  \<^verbatim>\<open>ADMIN_PASSWORD\<close>, the variable of the password key, and the search item
  lookup returns the file value, whatever the environment holds.
\<close>

theorem config_env_override_counterexample:
  "fst (get_emp_initial_name demo_os) = Inr ''s3cret''
   \<and> fst (get_user_password demo_os) = Inr ''s3cret''
   \<and> environ demo_os ''SEARCH_ITEM'' = Some ''from-env''
   \<and> fst (get_search_item_name demo_os) = Inr ''from-file''"
  by (simp add: demo_os_def get_emp_initial_name_def get_user_password_def
      get_search_item_name_def get_def get_raw_def ensure_loaded_def or_empty_def)

text \<open>
  C5, amended.  The login URL, the user email and the user password each have
  an environment variable of their own (\<^verbatim>\<open>ADMIN_LOGIN_URL\<close>,
  \<^verbatim>\<open>ADMIN_EMAIL\<close>, \<^verbatim>\<open>ADMIN_PASSWORD\<close>); whenever it is set, the lookup
  returns its value and does not read the configuration file.  The search item
  name has no override: its lookup gives the same result in every environment.
\<close>

theorem config_env_override:
  "(environ st ''ADMIN_LOGIN_URL'' = Some v \<longrightarrow> get_user_login_url st = (Inr v, st))
   \<and> (environ st ''ADMIN_EMAIL'' = Some v \<longrightarrow> get_user_email st = (Inr v, st))
   \<and> (environ st ''ADMIN_PASSWORD'' = Some v \<longrightarrow> get_user_password st = (Inr v, st))
   \<and> fst (get_search_item_name (st\<lparr>environ := e\<rparr>)) = fst (get_search_item_name st)"
proof (intro conjI impI)
  assume "environ st ''ADMIN_LOGIN_URL'' = Some v"
  then show "get_user_login_url st = (Inr v, st)"
    by (simp add: get_user_login_url_def get_env_set or_empty_def)
next
  assume "environ st ''ADMIN_EMAIL'' = Some v"
  then show "get_user_email st = (Inr v, st)"
    by (simp add: get_user_email_def get_env_set or_empty_def)
next
  assume "environ st ''ADMIN_PASSWORD'' = Some v"
  then show "get_user_password st = (Inr v, st)"
    by (simp add: get_user_password_def get_env_set or_empty_def)
next
  show "fst (get_search_item_name (st\<lparr>environ := e\<rparr>)) = fst (get_search_item_name st)"
    unfolding get_search_item_name_def get_no_env_var
    by (cases "get ''common info'' ''search_item'' None None st")
       (auto simp: then_do_def split: sum.splits)
qed

theorem config_env_override_witness:
  "get_user_password demo_os2 = (Inr ''s3cret'', demo_os2)
   \<and> fst (get_search_item_name (demo_os2\<lparr>environ := [''SEARCH_ITEM'' \<mapsto> ''from-env'']\<rparr>))
       = Inr ''from-file''"
proof -
  have e: "environ demo_os2 ''ADMIN_PASSWORD'' = Some ''s3cret''"
    by (simp add: demo_os2_def)
  have f: "fst (get_search_item_name demo_os2) = Inr ''from-file''"
    by (simp add: demo_os2_def get_search_item_name_def get_def get_raw_def
        ensure_loaded_def or_empty_def)
  from config_env_override [of demo_os2 "''s3cret''" "[''SEARCH_ITEM'' \<mapsto> ''from-env'']"] e f
  show ?thesis by simp
qed

section \<open>Properties of the page layer\<close>

lemma try_except_Inr [simp]: "try_except (Inr a, s) C h = (Inr a, s)"
  by (simp add: try_except_def)

lemma try_except_Inl [simp]: "try_except (Inl e, s) C h = (if C e then h e s else (Inl e, s))"
  by (simp add: try_except_def)

lemma call_trace:
  "call ev f bp s = (r, s') \<Longrightarrow> trace s' = trace s @ [ev]"
  by (auto simp: call_def split: prod.splits)

lemma call_fst:
  "fst (call ev f bp s) = fst (f (page s))"
  by (simp add: call_def split: prod.splits)

text \<open>
  C6.  \<^verbatim>\<open>open_url\<close> with an empty URL, or one that starts with neither
  \<^verbatim>\<open>http://\<close> nor \<^verbatim>\<open>https://\<close>, raises \<^verbatim>\<open>ValueError\<close> and
  leaves the session as it was: no command reached the driver, no navigation
  and no retry.
\<close>

theorem open_url_invalid_input:
  "url = [] \<or> \<not> is_absolute url \<Longrightarrow>
   \<exists>m. open_url bp url wait_for_locator timeout s = (Inl (ValueError m), s)"
  by (auto simp: open_url_def)

theorem open_url_invalid_input_witness:
  "\<exists>m. open_url demo_page ''example.com/login'' None None demo_session
     = (Inl (ValueError m), demo_session)"
proof -
  have "\<not> is_absolute ''example.com/login''"
    by (simp add: is_absolute_def startswith_def)
  then show ?thesis
    using open_url_invalid_input [of "''example.com/login''" demo_page None None demo_session]
    by simp
qed

text \<open>
  C3.  When the clickable wait of \<^verbatim>\<open>click\<close> returns an element and the
  native click raises a \<^verbatim>\<open>WebDriverException\<close>, \<^verbatim>\<open>click\<close> is the script
  click on that element: its outcome is the outcome of the script (normal
  return, or the script's own exception), never the native fault, and the
  driver saw one wait, one native click and one script, in that order.
\<close>

theorem click_fallback:
  assumes "find_clickable bp locator timeout s = (Inr el, s1)"
    and "el_click bp el s1 = (Inl e, s2)"
    and "is_WebDriverException e"
  shows "click bp locator timeout s = execute_script bp click_script [ArgElem el] s2
    \<and> fst (click bp locator timeout s)
        = fst (drv_execute_script (driver bp) click_script [ArgElem el] (page s2))
    \<and> trace (snd (click bp locator timeout s))
        = trace s @ [WaitUntil (Clickable locator) (timeout_or_default bp timeout), Click el,
                     ExecuteScript click_script [ArgElem el]]"
proof -
  have run: "click bp locator timeout s = execute_script bp click_script [ArgElem el] s2"
    using assms by (simp add: click_def)
  have t1: "trace s1 = trace s @ [WaitUntil (Clickable locator) (timeout_or_default bp timeout)]"
    using assms(1) by (auto simp: find_clickable_def wait_def wait_until_def dest: call_trace)
  have t2: "trace s2 = trace s1 @ [Click el]"
    using assms(2) by (auto simp: el_click_def dest: call_trace)
  obtain r s3 where ex: "execute_script bp click_script [ArgElem el] s2 = (r, s3)"
    by (cases "execute_script bp click_script [ArgElem el] s2") auto
  have t3: "trace s3 = trace s2 @ [ExecuteScript click_script [ArgElem el]]"
    using ex by (auto simp: execute_script_def dest: call_trace)
  have r: "fst (execute_script bp click_script [ArgElem el] s2)
        = fst (drv_execute_script (driver bp) click_script [ArgElem el] (page s2))"
    by (simp add: execute_script_def call_fst)
  show ?thesis using run t1 t2 t3 ex r by simp
qed

theorem click_fallback_witness:
  "click demo_page (''xpath'', ''//button'') (Some 1) demo_session
     = (Inr (), \<lparr>now = 6200, page = 3, os = demo_os2,
                 trace = [WaitUntil (Clickable (''xpath'', ''//button'')) 1, Click 7,
                          ExecuteScript click_script [ArgElem 7]]\<rparr>)"
proof -
  have a: "find_clickable demo_page (''xpath'', ''//button'') (Some 1) demo_session
    = (Inr 7, \<lparr>now = 5400, page = 1, os = demo_os2,
                trace = [WaitUntil (Clickable (''xpath'', ''//button'')) 1]\<rparr>)"
    by (simp add: find_clickable_def wait_def wait_until_def call_def timeout_or_default_def
        demo_page_def demo_driver_def demo_session_def)
  have b: "el_click demo_page 7 \<lparr>now = 5400, page = 1, os = demo_os2,
                trace = [WaitUntil (Clickable (''xpath'', ''//button'')) 1]\<rparr>
    = (Inl (WebDriverException ''click intercepted''),
       \<lparr>now = 5800, page = 2, os = demo_os2,
                trace = [WaitUntil (Clickable (''xpath'', ''//button'')) 1, Click 7]\<rparr>)"
    by (simp add: el_click_def call_def demo_page_def demo_driver_def)
  have c: "is_WebDriverException (WebDriverException ''click intercepted'')" by simp
  from click_fallback [OF a b c]
  show ?thesis
    by (simp add: execute_script_def call_def demo_page_def demo_driver_def)
qed

lemma save_screenshot_named:
  "name \<noteq> [] \<Longrightarrow> save_screenshot bp (Some name) s = (r, s') \<Longrightarrow>
   trace s' = trace s @ [SaveScreenshot name] \<and> (r = Inr name \<or> (\<exists>e. r = Inl e))"
  by (auto simp: save_screenshot_def or_empty_def Let_def then_do_def call_def
      split: prod.splits sum.splits)

lemma navigations_append [simp]:
  "navigations (xs @ ys) = navigations xs + navigations ys"
  by (simp add: navigations_def)

lemma call_navigations:
  "call ev f bp s = (r, s') \<Longrightarrow>
   navigations (trace s') = navigations (trace s) + (if is_Get ev then 1 else 0)"
  by (auto simp: call_def navigations_def split: prod.splits)

lemma save_screenshot_navigations:
  "save_screenshot bp name s = (r, s') \<Longrightarrow> navigations (trace s') = navigations (trace s)"
  by (auto simp: save_screenshot_def Let_def then_do_def call_def navigations_def
      split: prod.splits sum.splits)

lemma wait_until_navigations:
  "wait_until bp c t s = (r, s') \<Longrightarrow> navigations (trace s') = navigations (trace s)"
  by (auto simp: wait_until_def dest: call_navigations)

lemma driver_get_navigations:
  "driver_get bp url s = (r, s') \<Longrightarrow> navigations (trace s') = navigations (trace s) + 1"
  by (auto simp: driver_get_def dest: call_navigations)

lemma open_url_one_navigation:
  assumes "url \<noteq> []" and "is_absolute url"
  shows "navigations (trace (snd (open_url bp url wait_for_locator timeout s)))
           = navigations (trace s) + 1"
proof -
  obtain r1 s1 where g: "driver_get bp url s = (r1, s1)"
    by (cases "driver_get bp url s") auto
  note n1 = driver_get_navigations [OF g]
  show ?thesis
    using assms g n1
    by (auto simp: open_url_def Let_def then_do_def try_except_def
        split: prod.splits sum.splits option.splits if_splits
        dest!: save_screenshot_navigations wait_until_navigations)
qed

text \<open>
  C7.  For a non-empty URL with a scheme, \<^verbatim>\<open>open_url\<close> sends exactly one
  navigation to the driver, whatever happens after it.  When the navigation
  succeeds, no locator is given and the wait for the ready state raises
  \<^verbatim>\<open>TimeoutException\<close>, the timeout is not raised: a screenshot named
  after the timeout is requested, and \<^verbatim>\<open>open_url\<close> returns normally once
  the screenshot is taken.  The only exception that can leave the call there
  is one raised by the screenshot itself.
\<close>

theorem open_url_ready_state_timeout:
  assumes "url \<noteq> []" and "is_absolute url"
    and "driver_get bp url s = (Inr (), s1)"
    and "wait_until bp ReadyStateComplete (timeout_or_default bp timeout) s1
           = (Inl (TimeoutException m), s2)"
    and "save_screenshot bp
           (Some (''screenshots/open_url_readystate_timeout_'' @ stamp s2 @ ''.png'')) s2
           = (r, s3)"
  shows "open_url bp url None timeout s = (case r of Inl e \<Rightarrow> Inl e | Inr fname \<Rightarrow> Inr (), s3)
    \<and> trace s3 = trace s @
         [Get url, WaitUntil ReadyStateComplete (timeout_or_default bp timeout),
          SaveScreenshot (''screenshots/open_url_readystate_timeout_'' @ stamp s2 @ ''.png'')]
    \<and> navigations (trace (snd (open_url bp url wait_for_locator timeout s)))
        = navigations (trace s) + 1"
proof -
  have run: "open_url bp url None timeout s
      = (case r of Inl e \<Rightarrow> Inl e | Inr fname \<Rightarrow> Inr (), s3)"
    using assms by (cases r) (simp_all add: open_url_def Let_def)
  have t1: "trace s1 = trace s @ [Get url]"
    using assms(3) by (auto simp: driver_get_def dest: call_trace)
  have t2: "trace s2 = trace s1 @ [WaitUntil ReadyStateComplete (timeout_or_default bp timeout)]"
    using assms(4) by (auto simp: wait_until_def dest: call_trace)
  have t3: "trace s3 = trace s2 @
      [SaveScreenshot (''screenshots/open_url_readystate_timeout_'' @ stamp s2 @ ''.png'')]"
    using save_screenshot_named [OF _ assms(5)] by simp
  have tr: "trace s3 = trace s @
         [Get url, WaitUntil ReadyStateComplete (timeout_or_default bp timeout),
          SaveScreenshot (''screenshots/open_url_readystate_timeout_'' @ stamp s2 @ ''.png'')]"
    using t1 t2 t3 by simp
  note one = open_url_one_navigation [OF assms(1,2), of bp wait_for_locator timeout s]
  from run tr one show ?thesis by simp
qed


theorem open_url_ready_state_timeout_witness:
  "open_url demo_page ''http://host/login'' None (Some 1) demo_session
     = (Inr (), \<lparr>now = 6200, page = 3, os = demo_os2,
          trace = [Get ''http://host/login'', WaitUntil ReadyStateComplete 1,
                   SaveScreenshot ''screenshots/open_url_readystate_timeout_5.png'']\<rparr>)"
proof -
  have v: "''http://host/login'' \<noteq> []" "is_absolute ''http://host/login''"
    by (simp_all add: is_absolute_def startswith_def)
  have a: "driver_get demo_page ''http://host/login'' demo_session
      = (Inr (), \<lparr>now = 5400, page = 1, os = demo_os2, trace = [Get ''http://host/login'']\<rparr>)"
    by (simp add: driver_get_def call_def demo_page_def demo_driver_def demo_session_def)
  have b: "wait_until demo_page ReadyStateComplete (timeout_or_default demo_page (Some 1))
        \<lparr>now = 5400, page = 1, os = demo_os2, trace = [Get ''http://host/login'']\<rparr>
      = (Inl (TimeoutException ''ready''),
         \<lparr>now = 5800, page = 2, os = demo_os2,
          trace = [Get ''http://host/login'', WaitUntil ReadyStateComplete 1]\<rparr>)"
    by (simp add: wait_until_def call_def timeout_or_default_def demo_page_def demo_driver_def)
  have c: "save_screenshot demo_page
        (Some (''screenshots/open_url_readystate_timeout_'' @
           stamp \<lparr>now = 5800, page = 2, os = demo_os2,
             trace = [Get ''http://host/login'', WaitUntil ReadyStateComplete 1]\<rparr> @ ''.png''))
        \<lparr>now = 5800, page = 2, os = demo_os2,
          trace = [Get ''http://host/login'', WaitUntil ReadyStateComplete 1]\<rparr>
      = (Inr ''screenshots/open_url_readystate_timeout_5.png'',
         \<lparr>now = 6200, page = 3, os = demo_os2,
          trace = [Get ''http://host/login'', WaitUntil ReadyStateComplete 1,
                   SaveScreenshot ''screenshots/open_url_readystate_timeout_5.png'']\<rparr>)"
    by (simp add: save_screenshot_def or_empty_def call_def demo_page_def demo_driver_def
        stamp_def str_int_def str_nat.simps digit_char_def Let_def)
  from open_url_ready_state_timeout [OF v a b c]
  show ?thesis by simp
qed


text \<open>
  C8.  When the navigation succeeds, the ready-state step is passed (in time,
  or timed out with its screenshot taken), and the wait for the visibility of
  the given locator raises \<^verbatim>\<open>TimeoutException\<close>, then \<^verbatim>\<open>open_url\<close>
  takes a screenshot named after the locator timeout, as its last command, and
  raises \<^verbatim>\<open>AssertionError\<close> with a message that contains the screenshot's
  path.
\<close>

theorem open_url_locator_timeout:
  assumes "url \<noteq> []" and "is_absolute url"
    and "driver_get bp url s = (Inr (), s1)"
    and "wait_until bp ReadyStateComplete (timeout_or_default bp timeout) s1 = (Inr x, s3)
         \<or> (wait_until bp ReadyStateComplete (timeout_or_default bp timeout) s1
               = (Inl (TimeoutException m0), s2)
            \<and> save_screenshot bp
                 (Some (''screenshots/open_url_readystate_timeout_'' @ stamp s2 @ ''.png'')) s2
               = (Inr f0, s3))"
    and "wait_until bp (Visibility loc) (timeout_or_default bp timeout) s3
           = (Inl (TimeoutException m), s4)"
    and "save_screenshot bp
           (Some (''screenshots/open_url_wait_for_locator_timeout_'' @ stamp s4 @ ''.png'')) s4
           = (Inr fname, s5)"
  shows "open_url bp url (Some loc) timeout s
           = (Inl (AssertionError (''Timed out waiting for locator '' @ str_locator bp loc
                     @ ''. Screenshot: '' @ fname)), s5)
    \<and> fname = ''screenshots/open_url_wait_for_locator_timeout_'' @ stamp s4 @ ''.png''
    \<and> trace s5 = trace s4 @ [SaveScreenshot fname]
    \<and> sublist fname (''Timed out waiting for locator '' @ str_locator bp loc
                     @ ''. Screenshot: '' @ fname)"
proof -
  have ready: "try_except
       (then_do (wait_until bp ReadyStateComplete (timeout_or_default bp timeout) s1)
          (\<lambda>_ s2. (Inr (), s2)))
       is_TimeoutException (\<lambda>e s2.
         then_do
           (save_screenshot bp
              (Some (''screenshots/open_url_readystate_timeout_'' @ stamp s2 @ ''.png'')) s2)
           (\<lambda>_ s3. (Inr (), s3))) = (Inr (), s3)"
    using assms(4) by auto
  have run: "open_url bp url (Some loc) timeout s
           = (Inl (AssertionError (''Timed out waiting for locator '' @ str_locator bp loc
                     @ ''. Screenshot: '' @ fname)), s5)"
    using assms(1,2,3,5,6) ready by (simp add: open_url_def Let_def)
  have nm: "fname = ''screenshots/open_url_wait_for_locator_timeout_'' @ stamp s4 @ ''.png''"
    using save_screenshot_named [OF _ assms(6)] by simp
  have tr: "trace s5 = trace s4 @ [SaveScreenshot fname]"
    using save_screenshot_named [OF _ assms(6)] nm by simp
  have sub: "sublist fname (''Timed out waiting for locator '' @ str_locator bp loc
                     @ ''. Screenshot: '' @ fname)"
    by (metis append.assoc sublist_appendI append_Nil2)
  from run nm tr sub show ?thesis by blast
qed


theorem open_url_locator_timeout_witness:
  "open_url demo_page ''http://host/login'' (Some (''xpath'', ''//missing'')) (Some 1)
     demo_session
   = (Inl (AssertionError
        (''Timed out waiting for locator (xpath, //missing). Screenshot: ''
         @ ''screenshots/open_url_wait_for_locator_timeout_6.png'')),
      \<lparr>now = 7000, page = 5, os = demo_os2,
        trace = [Get ''http://host/login'', WaitUntil ReadyStateComplete 1,
                 SaveScreenshot ''screenshots/open_url_readystate_timeout_5.png'',
                 WaitUntil (Visibility (''xpath'', ''//missing'')) 1,
                 SaveScreenshot ''screenshots/open_url_wait_for_locator_timeout_6.png'']\<rparr>)"
proof -
  let ?t1 = "[Get ''http://host/login'']"
  let ?t2 = "?t1 @ [WaitUntil ReadyStateComplete 1]"
  let ?t3 = "?t2 @ [SaveScreenshot ''screenshots/open_url_readystate_timeout_5.png'']"
  let ?t4 = "?t3 @ [WaitUntil (Visibility (''xpath'', ''//missing'')) 1]"
  let ?t5 = "?t4 @ [SaveScreenshot ''screenshots/open_url_wait_for_locator_timeout_6.png'']"
  let ?s1 = "\<lparr>now = 5400, page = 1::nat, os = demo_os2, trace = ?t1\<rparr>"
  let ?s2 = "\<lparr>now = 5800, page = 2::nat, os = demo_os2, trace = ?t2\<rparr>"
  let ?s3 = "\<lparr>now = 6200, page = 3::nat, os = demo_os2, trace = ?t3\<rparr>"
  let ?s4 = "\<lparr>now = 6600, page = 4::nat, os = demo_os2, trace = ?t4\<rparr>"
  let ?s5 = "\<lparr>now = 7000, page = 5::nat, os = demo_os2, trace = ?t5\<rparr>"
  have v: "''http://host/login'' \<noteq> []" "is_absolute ''http://host/login''"
    by (simp_all add: is_absolute_def startswith_def)
  have a: "driver_get demo_page ''http://host/login'' demo_session = (Inr (), ?s1)"
    by (simp add: driver_get_def call_def demo_page_def demo_driver_def demo_session_def)
  have b1: "wait_until demo_page ReadyStateComplete (timeout_or_default demo_page (Some 1)) ?s1
      = (Inl (TimeoutException ''ready''), ?s2)"
    by (simp add: wait_until_def call_def timeout_or_default_def demo_page_def demo_driver_def)
  have b2: "save_screenshot demo_page
        (Some (''screenshots/open_url_readystate_timeout_'' @ stamp ?s2 @ ''.png'')) ?s2
      = (Inr ''screenshots/open_url_readystate_timeout_5.png'', ?s3)"
    by (simp add: save_screenshot_def or_empty_def call_def demo_page_def demo_driver_def
        stamp_def str_int_def str_nat.simps digit_char_def Let_def)
  have b: "wait_until demo_page ReadyStateComplete (timeout_or_default demo_page (Some 1)) ?s1
             = (Inr 0, ?s3)
         \<or> (wait_until demo_page ReadyStateComplete (timeout_or_default demo_page (Some 1)) ?s1
               = (Inl (TimeoutException ''ready''), ?s2)
            \<and> save_screenshot demo_page
                 (Some (''screenshots/open_url_readystate_timeout_'' @ stamp ?s2 @ ''.png'')) ?s2
               = (Inr ''screenshots/open_url_readystate_timeout_5.png'', ?s3))"
    using b1 b2 by blast
  have c: "wait_until demo_page (Visibility (''xpath'', ''//missing''))
        (timeout_or_default demo_page (Some 1)) ?s3
      = (Inl (TimeoutException ''visible''), ?s4)"
    by (simp add: wait_until_def call_def timeout_or_default_def demo_page_def demo_driver_def)
  have d: "save_screenshot demo_page
        (Some (''screenshots/open_url_wait_for_locator_timeout_'' @ stamp ?s4 @ ''.png'')) ?s4
      = (Inr ''screenshots/open_url_wait_for_locator_timeout_6.png'', ?s5)"
    by (simp add: save_screenshot_def or_empty_def call_def demo_page_def demo_driver_def
        stamp_def str_int_def str_nat.simps digit_char_def Let_def)
  from open_url_locator_timeout [OF v a b c d]
  show ?thesis by (simp add: demo_page_def)
qed

lemma takeWhile_eq_replicate:
  "takeWhile (\<lambda>c. c = x) xs = replicate (length (takeWhile (\<lambda>c. c = x) xs)) x"
  by (induction xs) auto

lemma lstrip_slash_shape:
  "(\<exists>m. path = replicate m CHR ''/'' @ lstrip_slash path)
   \<and> (lstrip_slash path = [] \<or> hd (lstrip_slash path) \<noteq> CHR ''/'')"
proof -
  have "path = takeWhile (\<lambda>c. c = CHR ''/'') path @ dropWhile (\<lambda>c. c = CHR ''/'') path"
    by simp
  then have "path = replicate (length (takeWhile (\<lambda>c. c = CHR ''/'') path)) CHR ''/''
      @ lstrip_slash path"
    using takeWhile_eq_replicate [of "CHR ''/''" path]
    by (simp add: lstrip_slash_def lstrip_chars_def)
  moreover have "lstrip_slash path = [] \<or> hd (lstrip_slash path) \<noteq> CHR ''/''"
    using hd_dropWhile [of "\<lambda>c. c = CHR ''/''" path]
    by (auto simp: lstrip_slash_def lstrip_chars_def)
  ultimately show ?thesis by blast
qed

lemma rstrip_slash_shape:
  "(\<exists>n. base = rstrip_slash base @ replicate n CHR ''/'')
   \<and> (rstrip_slash base = [] \<or> last (rstrip_slash base) \<noteq> CHR ''/'')"
proof -
  obtain m where m: "rev base = replicate m CHR ''/'' @ lstrip_slash (rev base)"
    using lstrip_slash_shape [of "rev base"] by blast
  have r: "rstrip_slash base = rev (lstrip_slash (rev base))"
    by (simp add: rstrip_slash_def rstrip_chars_def lstrip_slash_def lstrip_chars_def)
  have "rev (rev base) = rev (replicate m CHR ''/'' @ lstrip_slash (rev base))"
    using m by simp
  then have "base = rstrip_slash base @ replicate m CHR ''/''"
    by (simp add: r)
  moreover have "rstrip_slash base = [] \<or> last (rstrip_slash base) \<noteq> CHR ''/''"
    using lstrip_slash_shape [of "rev base"] by (auto simp: r last_rev)
  ultimately show ?thesis by blast
qed

text \<open>
  C2.  For a path that starts with neither \<^verbatim>\<open>http://\<close> nor
  \<^verbatim>\<open>https://\<close>, \<^verbatim>\<open>open\<close> resolves the base URL (the configured login
  URL, or \<^verbatim>\<open>BASE_URL\<close> when the configuration lookup raises).  With no
  base it raises \<^verbatim>\<open>RuntimeError\<close>.  Otherwise it opens the base without
  its trailing slashes, one slash, and the path without its leading slashes:
  what is left of the base does not end with a slash and what is left of the
  path does not start with one, so exactly one slash separates them.
\<close>

theorem open_joins_base_and_path:
  assumes "\<not> is_absolute path" and "resolve_base (os s) = (base, st')"
  shows "(base = [] \<longrightarrow>
            (\<exists>m. open_page bp path wait_for_locator timeout s
                  = (Inl (RuntimeError m), s\<lparr>os := st'\<rparr>)))
    \<and> (base \<noteq> [] \<longrightarrow>
          open_page bp path wait_for_locator timeout s
            = open_url bp (rstrip_slash base @ ''/'' @ lstrip_slash path) wait_for_locator timeout
                (s\<lparr>os := st'\<rparr>))
    \<and> (\<exists>n. base = rstrip_slash base @ replicate n CHR ''/'')
    \<and> (rstrip_slash base = [] \<or> last (rstrip_slash base) \<noteq> CHR ''/'')
    \<and> (\<exists>m. path = replicate m CHR ''/'' @ lstrip_slash path)
    \<and> (lstrip_slash path = [] \<or> hd (lstrip_slash path) \<noteq> CHR ''/'')"
proof -
  have a: "base = [] \<longrightarrow>
            (\<exists>m. open_page bp path wait_for_locator timeout s
                  = (Inl (RuntimeError m), s\<lparr>os := st'\<rparr>))"
    using assms by (simp add: open_page_def)
  have b: "base \<noteq> [] \<longrightarrow>
          open_page bp path wait_for_locator timeout s
            = open_url bp (rstrip_slash base @ ''/'' @ lstrip_slash path) wait_for_locator timeout
                (s\<lparr>os := st'\<rparr>)"
    using assms by (simp add: open_page_def Let_def)
  from a b rstrip_slash_shape [of base] lstrip_slash_shape [of path]
  show ?thesis by blast
qed

lemma resolve_base_env:
  "environ st ''ADMIN_LOGIN_URL'' = Some v \<Longrightarrow> resolve_base st = (v, st)"
  by (simp add: resolve_base_def get_user_login_url_def get_env_set or_empty_def)

theorem open_joins_base_and_path_witness:
  "open_page demo_page ''/pim'' None (Some 1) demo_session
     = open_url demo_page ''http://host/pim'' None (Some 1) demo_session
   \<and> open_page demo_page ''pim'' None (Some 1)
       (demo_session\<lparr>os := demo_os2\<lparr>environ := [''ADMIN_LOGIN_URL'' \<mapsto> ''http://host'']\<rparr>\<rparr>)
     = open_url demo_page ''http://host/pim'' None (Some 1)
       (demo_session\<lparr>os := demo_os2\<lparr>environ := [''ADMIN_LOGIN_URL'' \<mapsto> ''http://host'']\<rparr>\<rparr>)"
proof -
  have n1: "\<not> is_absolute ''/pim''" and n2: "\<not> is_absolute ''pim''"
    by (simp_all add: is_absolute_def startswith_def)
  have r1: "resolve_base (os demo_session) = (''http://host/'', os demo_session)"
    by (rule resolve_base_env) (simp add: demo_session_def demo_os2_def)
  let ?s = "demo_session\<lparr>os := demo_os2\<lparr>environ := [''ADMIN_LOGIN_URL'' \<mapsto> ''http://host'']\<rparr>\<rparr>"
  have r2: "resolve_base (os ?s) = (''http://host'', os ?s)"
    by (rule resolve_base_env) simp
  have j1: "rstrip_slash ''http://host/'' @ ''/'' @ lstrip_slash ''/pim'' = ''http://host/pim''"
    by (simp add: rstrip_slash_def rstrip_chars_def lstrip_slash_def lstrip_chars_def)
  have j2: "rstrip_slash ''http://host'' @ ''/'' @ lstrip_slash ''pim'' = ''http://host/pim''"
    by (simp add: rstrip_slash_def rstrip_chars_def lstrip_slash_def lstrip_chars_def)
  from open_joins_base_and_path [OF n1 r1, of demo_page None "Some 1"]
  have "open_page demo_page ''/pim'' None (Some 1) demo_session
     = open_url demo_page ''http://host/pim'' None (Some 1) demo_session"
    unfolding j1 by simp
  moreover from open_joins_base_and_path [OF n2 r2, of demo_page None "Some 1"]
  have "open_page demo_page ''pim'' None (Some 1) ?s
     = open_url demo_page ''http://host/pim'' None (Some 1) ?s"
    unfolding j2 by simp
  ultimately show ?thesis by simp
qed

lemma find_elements_trace:
  "trace (snd (find_elements bp locator s)) = trace s @ [FindElements locator]"
  by (simp add: find_elements_def call_def split: prod.splits)

lemma find_elements_now: "now s \<le> now (snd (find_elements bp locator s))"
  by (simp add: find_elements_def call_def split: prod.splits)

lemma next_look_trace:
  "trace (next_look bp locator s) = trace s @ [FindElements locator, Sleep 150]"
  by (simp add: next_look_def sleep_def find_elements_trace)

lemma next_look_now: "now s + 150 \<le> now (next_look bp locator s)"
  using find_elements_now [of s bp locator] by (simp add: next_look_def sleep_def)

lemma concat_replicate_commute:
  "concat (replicate n xs) @ xs = xs @ concat (replicate n xs)"
  by (induction n) simp_all

lemma looks_trace:
  "trace ((next_look bp locator ^^ n) s)
     = trace s @ concat (replicate n [FindElements locator, Sleep 150])"
proof (induction n)
  case 0
  show ?case by simp
next
  case (Suc n)
  have "trace ((next_look bp locator ^^ Suc n) s)
      = trace s @ (concat (replicate n [FindElements locator, Sleep 150])
                   @ [FindElements locator, Sleep 150])"
    using Suc by (simp add: next_look_trace)
  then show ?case
    by (simp only: concat_replicate_commute replicate_Suc concat.simps)
qed

lemma looks_now: "now s + 150 * int n \<le> now ((next_look bp locator ^^ n) s)"
proof (induction n)
  case 0
  show ?case by simp
next
  case (Suc n)
  have "now ((next_look bp locator ^^ n) s) + 150
      \<le> now ((next_look bp locator ^^ Suc n) s)"
    using next_look_now [of "(next_look bp locator ^^ n) s" bp locator] by simp
  with Suc show ?case by simp
qed

lemma get_element_list_loop_rounds:
  "\<exists>n. (\<forall>i<n. now ((next_look bp locator ^^ i) s) < end
             \<and> fst (find_elements bp locator ((next_look bp locator ^^ i) s)) = Inr [])
     \<and> (if now ((next_look bp locator ^^ n) s) < end
        then fst (find_elements bp locator ((next_look bp locator ^^ n) s)) \<noteq> Inr []
           \<and> get_element_list_loop bp locator end s
               = find_elements bp locator ((next_look bp locator ^^ n) s)
        else get_element_list_loop bp locator end s = (Inr [], (next_look bp locator ^^ n) s))"
proof (induction bp locator "end" s rule: get_element_list_loop.induct)
  case (1 bp locator "end" s)
  show ?case
  proof (cases "now s < end")
    case False
    then have "get_element_list_loop bp locator end s = (Inr [], s)"
      by (simp add: get_element_list_loop.simps)
    with False show ?thesis by (intro exI [of _ 0]) simp
  next
    case True
    obtain r s1 where f: "find_elements bp locator s = (r, s1)"
      by (cases "find_elements bp locator s") auto
    show ?thesis
    proof (cases "r = Inr []")
      case False
      have "get_element_list_loop bp locator end s = (r, s1)"
        using True f False
        by (subst get_element_list_loop.simps) (auto split: sum.splits)
      with True f False show ?thesis by (intro exI [of _ 0]) simp
    next
      case e: True
      have nl: "next_look bp locator s = sleep 150 s1"
        using f by (simp add: next_look_def)
      have step: "get_element_list_loop bp locator end s
          = get_element_list_loop bp locator end (next_look bp locator s)"
        using True f e nl by (subst get_element_list_loop.simps) simp
      have "\<not> ([]::elem list) \<noteq> []" by simp
      from "1.IH" [OF True f [symmetric, unfolded e] refl this]
      obtain n where
        a: "\<forall>i<n. now ((next_look bp locator ^^ i) (next_look bp locator s)) < end
             \<and> fst (find_elements bp locator ((next_look bp locator ^^ i) (next_look bp locator s))) = Inr []"
        and b: "if now ((next_look bp locator ^^ n) (next_look bp locator s)) < end
        then fst (find_elements bp locator ((next_look bp locator ^^ n) (next_look bp locator s))) \<noteq> Inr []
           \<and> get_element_list_loop bp locator end (next_look bp locator s)
               = find_elements bp locator ((next_look bp locator ^^ n) (next_look bp locator s))
        else get_element_list_loop bp locator end (next_look bp locator s)
               = (Inr [], (next_look bp locator ^^ n) (next_look bp locator s))"
        unfolding nl by blast
      have a': "\<forall>i<Suc n. now ((next_look bp locator ^^ i) s) < end
             \<and> fst (find_elements bp locator ((next_look bp locator ^^ i) s)) = Inr []"
      proof (intro allI impI)
        fix i assume "i < Suc n"
        show "now ((next_look bp locator ^^ i) s) < end
             \<and> fst (find_elements bp locator ((next_look bp locator ^^ i) s)) = Inr []"
        proof (cases i)
          case 0
          with True f e show ?thesis by simp
        next
          case (Suc j)
          with \<open>i < Suc n\<close> have "j < n" by simp
          with a Suc show ?thesis by (simp add: funpow_swap1)
        qed
      qed
      have b': "if now ((next_look bp locator ^^ Suc n) s) < end
        then fst (find_elements bp locator ((next_look bp locator ^^ Suc n) s)) \<noteq> Inr []
           \<and> get_element_list_loop bp locator end s
               = find_elements bp locator ((next_look bp locator ^^ Suc n) s)
        else get_element_list_loop bp locator end s
               = (Inr [], (next_look bp locator ^^ Suc n) s)"
        using b step by (simp add: funpow_swap1)
      from a' b' show ?thesis by blast
    qed
  qed
qed

text \<open>
  C4.  \<^verbatim>\<open>get_element_list\<close> looks for the locator in rounds, and \<open>at i\<close> is
  the state in which round \<open>i\<close> tests the clock: \<open>i\<close> rounds of one
  \<^verbatim>\<open>find_elements\<close> and one sleep of 150 ms after the call.  Some number
  \<open>n\<close> of rounds each begin before the deadline (the start time plus the
  timeout) and find the empty list.  Then either round \<open>n\<close> begins before the
  deadline too and its \<^verbatim>\<open>find_elements\<close> gives something else than the empty
  list: the call returns that outcome at once, with no sleep (the elements
  found; a fault of the driver is not caught).  Or the deadline has passed in
  \<open>at n\<close>: the call returns the empty list in that state and raises nothing.
  So with time left the driver is asked at least once, elements that are found
  are returned, and exhausting the timeout gives the empty list.
\<close>

theorem get_element_list_polls_until_found_or_timeout:
  "\<exists>n. let end = now s + 1000 * timeout_or_default bp timeout;
           at = (\<lambda>i. (next_look bp locator ^^ i) s)
       in (\<forall>i<n. now (at i) < end \<and> fst (find_elements bp locator (at i)) = Inr [])
        \<and> trace (at n) = trace s @ concat (replicate n [FindElements locator, Sleep 150])
        \<and> now s + 150 * int n \<le> now (at n)
        \<and> (if now (at n) < end
           then fst (find_elements bp locator (at n)) \<noteq> Inr []
              \<and> get_element_list bp locator timeout s = find_elements bp locator (at n)
              \<and> trace (snd (find_elements bp locator (at n))) = trace (at n) @ [FindElements locator]
           else get_element_list bp locator timeout s = (Inr [], at n))"
proof -
  let ?end = "now s + 1000 * timeout_or_default bp timeout"
  from get_element_list_loop_rounds [of bp locator s ?end]
  obtain n where
    a: "\<forall>i<n. now ((next_look bp locator ^^ i) s) < ?end
             \<and> fst (find_elements bp locator ((next_look bp locator ^^ i) s)) = Inr []"
    and b: "if now ((next_look bp locator ^^ n) s) < ?end
        then fst (find_elements bp locator ((next_look bp locator ^^ n) s)) \<noteq> Inr []
           \<and> get_element_list_loop bp locator ?end s
               = find_elements bp locator ((next_look bp locator ^^ n) s)
        else get_element_list_loop bp locator ?end s = (Inr [], (next_look bp locator ^^ n) s)"
    by blast
  have g: "get_element_list bp locator timeout s = get_element_list_loop bp locator ?end s"
    by (simp add: get_element_list_def Let_def)
  show ?thesis
    unfolding Let_def g
    using a b looks_trace [where bp = bp and locator = locator and n = n and s = s]
      looks_now [where bp = bp and locator = locator and n = n and s = s]
      find_elements_trace [where bp = bp and locator = locator
        and s = "(next_look bp locator ^^ n) s"]
    by (intro exI [of _ n]) (simp split: if_splits)
qed


text \<open>
  Two runs from the example session.  With a timeout of five seconds, on the
  browser that matches from the third look on, two empty rounds and the two
  elements of the third look; with a timeout of one second, on the browser that
  never matches, two empty rounds and the empty list.
\<close>

lemma demo_now: "now demo_session = 5000"
  by (simp add: demo_session_def)

lemma demo_looks:
  "(next_look demo_page (''xpath'', ''//missing'') ^^ 2) demo_session
     = \<lparr>now = 6100, page = 2, os = demo_os2,
          trace = [FindElements (''xpath'', ''//missing''), Sleep 150,
                   FindElements (''xpath'', ''//missing''), Sleep 150]\<rparr>"
  "(next_look demo_page (''xpath'', ''//missing'') ^^ 1) demo_session
     = \<lparr>now = 5550, page = 1, os = demo_os2,
          trace = [FindElements (''xpath'', ''//missing''), Sleep 150]\<rparr>"
  by (simp_all add: numeral_2_eq_2 next_look_def find_elements_def call_def sleep_def
      demo_page_def demo_driver_def demo_session_def)

lemma late_looks:
  "(next_look late_page (''id'', ''row'') ^^ 2) demo_session
     = \<lparr>now = 6100, page = 2, os = demo_os2,
          trace = [FindElements (''id'', ''row''), Sleep 150,
                   FindElements (''id'', ''row''), Sleep 150]\<rparr>"
  "(next_look late_page (''id'', ''row'') ^^ 1) demo_session
     = \<lparr>now = 5550, page = 1, os = demo_os2,
          trace = [FindElements (''id'', ''row''), Sleep 150]\<rparr>"
  by (simp_all add: numeral_2_eq_2 next_look_def find_elements_def call_def sleep_def
      late_page_def late_driver_def demo_page_def demo_driver_def demo_session_def)

theorem get_element_list_polls_until_found_or_timeout_witness:
  "get_element_list late_page (''id'', ''row'') (Some 5) demo_session
     = (Inr [3, 4], \<lparr>now = 6500, page = 3, os = demo_os2,
          trace = [FindElements (''id'', ''row''), Sleep 150,
                   FindElements (''id'', ''row''), Sleep 150,
                   FindElements (''id'', ''row'')]\<rparr>)
   \<and> get_element_list demo_page (''xpath'', ''//missing'') (Some 1) demo_session
     = (Inr [], \<lparr>now = 6100, page = 2, os = demo_os2,
          trace = [FindElements (''xpath'', ''//missing''), Sleep 150,
                   FindElements (''xpath'', ''//missing''), Sleep 150]\<rparr>)"
proof
  let ?at = "\<lambda>i. (next_look late_page (''id'', ''row'') ^^ i) demo_session"
  from get_element_list_polls_until_found_or_timeout
         [of demo_session late_page "Some 5" "(''id'', ''row'')"]
  obtain n where
    a: "\<forall>i<n. now (?at i) < 10000
          \<and> fst (find_elements late_page (''id'', ''row'') (?at i)) = Inr []"
    and b: "if now (?at n) < 10000
        then fst (find_elements late_page (''id'', ''row'') (?at n)) \<noteq> Inr []
           \<and> get_element_list late_page (''id'', ''row'') (Some 5) demo_session
               = find_elements late_page (''id'', ''row'') (?at n)
        else get_element_list late_page (''id'', ''row'') (Some 5) demo_session
               = (Inr [], ?at n)"
    by (auto simp: Let_def timeout_or_default_def demo_now split: if_splits)
  have f0: "fst (find_elements late_page (''id'', ''row'') (?at 0)) = Inr []"
    and f1: "fst (find_elements late_page (''id'', ''row'') (?at 1)) = Inr []"
    and f2: "find_elements late_page (''id'', ''row'') (?at 2)
       = (Inr [3, 4], \<lparr>now = 6500, page = 3, os = demo_os2,
          trace = [FindElements (''id'', ''row''), Sleep 150,
                   FindElements (''id'', ''row''), Sleep 150,
                   FindElements (''id'', ''row'')]\<rparr>)"
    unfolding late_looks
    by (simp_all add: find_elements_def call_def
        late_page_def late_driver_def demo_page_def demo_driver_def demo_session_def)
  have n0: "now (?at 0) < 10000" and n1: "now (?at 1) < 10000" and n2: "now (?at 2) < 10000"
    unfolding late_looks by (simp_all add: demo_session_def)
  have "n = 2"
  proof (rule ccontr)
    assume "n \<noteq> 2"
    then consider "n = 0" | "n = 1" | "2 < n" by linarith
    then show False
    proof cases
      case 1
      with b n0 f0 show False by simp
    next
      case 2
      with b n1 f1 show False by simp
    next
      case 3
      with a have "fst (find_elements late_page (''id'', ''row'') (?at 2)) = Inr []" by blast
      with f2 show False by simp
    qed
  qed
  with b n2 f2
  show "get_element_list late_page (''id'', ''row'') (Some 5) demo_session
     = (Inr [3, 4], \<lparr>now = 6500, page = 3, os = demo_os2,
          trace = [FindElements (''id'', ''row''), Sleep 150,
                   FindElements (''id'', ''row''), Sleep 150,
                   FindElements (''id'', ''row'')]\<rparr>)"
    by simp
next
  let ?at = "\<lambda>i. (next_look demo_page (''xpath'', ''//missing'') ^^ i) demo_session"
  from get_element_list_polls_until_found_or_timeout
         [of demo_session demo_page "Some 1" "(''xpath'', ''//missing'')"]
  obtain n where
    a: "\<forall>i<n. now (?at i) < 6000
          \<and> fst (find_elements demo_page (''xpath'', ''//missing'') (?at i)) = Inr []"
    and b: "if now (?at n) < 6000
        then fst (find_elements demo_page (''xpath'', ''//missing'') (?at n)) \<noteq> Inr []
           \<and> get_element_list demo_page (''xpath'', ''//missing'') (Some 1) demo_session
               = find_elements demo_page (''xpath'', ''//missing'') (?at n)
        else get_element_list demo_page (''xpath'', ''//missing'') (Some 1) demo_session
               = (Inr [], ?at n)"
    by (auto simp: Let_def timeout_or_default_def demo_now split: if_splits)
  have f: "\<And>s. fst (find_elements demo_page (''xpath'', ''//missing'') s) = Inr []"
    by (simp add: find_elements_def call_def demo_page_def demo_driver_def)
  have n0: "now (?at 0) < 6000" and n1: "now (?at 1) < 6000" and n2: "\<not> now (?at 2) < 6000"
    unfolding demo_looks by (simp_all add: demo_session_def)
  have "n = 2"
  proof (rule ccontr)
    assume "n \<noteq> 2"
    then consider "n = 0" | "n = 1" | "2 < n" by linarith
    then show False
    proof cases
      case 1
      with b n0 f show False by simp
    next
      case 2
      with b n1 f show False by simp
    next
      case 3
      with a have "now (?at 2) < 6000" by blast
      with n2 show False by simp
    qed
  qed
  with b n2
  show "get_element_list demo_page (''xpath'', ''//missing'') (Some 1) demo_session
     = (Inr [], \<lparr>now = 6100, page = 2, os = demo_os2,
          trace = [FindElements (''xpath'', ''//missing''), Sleep 150,
                   FindElements (''xpath'', ''//missing''), Sleep 150]\<rparr>)"
    by (simp add: demo_looks)
qed

lemma scripts_append [simp]: "scripts (xs @ ys) = scripts xs + scripts ys"
  by (simp add: scripts_def)

lemma sleeps_append [simp]: "sleeps (xs @ ys) = sleeps xs @ sleeps ys"
  by (induction xs rule: sleeps.induct) auto

lemma read_value_driver:
  "fst (read_value bp el s) =
     (case drv_get_attribute (driver bp) el ''value'' (page s) of
        (Inl x, w) \<Rightarrow> Inl x
      | (Inr a, w) \<Rightarrow>
          if or_empty a \<noteq> [] then Inr (strip (or_empty a))
          else (case drv_text (driver bp) el w of
                  (Inl x, w') \<Rightarrow> Inl x
                | (Inr tx, w') \<Rightarrow> Inr (strip tx)))"
  by (simp add: read_value_def el_get_attribute_def el_text_def call_def then_do_def
      split: prod.splits sum.splits)

lemma read_value_events:
  "trace (snd (read_value bp el s)) = trace s @
     (case fst (drv_get_attribute (driver bp) el ''value'' (page s)) of
        Inl x \<Rightarrow> [GetAttribute el ''value'']
      | Inr a \<Rightarrow> if or_empty a \<noteq> [] then [GetAttribute el ''value'']
                 else [GetAttribute el ''value'', GetText el])"
  by (simp add: read_value_def el_get_attribute_def el_text_def call_def then_do_def
      split: prod.splits sum.splits)

lemma read_value_trace:
  "\<exists>tr. trace (snd (read_value bp el s)) = trace s @ tr \<and> scripts tr = 0 \<and> sleeps tr = []"
proof -
  let ?tr = "case fst (drv_get_attribute (driver bp) el ''value'' (page s)) of
        Inl x \<Rightarrow> [GetAttribute el ''value'']
      | Inr a \<Rightarrow> if or_empty a \<noteq> [] then [GetAttribute el ''value'']
                 else [GetAttribute el ''value'', GetText el]"
  have "scripts ?tr = 0" "sleeps ?tr = []"
    by (simp_all add: scripts_def split: sum.splits)
  with read_value_events [of bp el s] show ?thesis by blast
qed

lemma next_poll_trace:
  "\<exists>tr. trace (next_poll bp el s) = trace s @ tr \<and> scripts tr = 0 \<and> sleeps tr = [120]"
proof -
  from read_value_trace [of bp el s] obtain tr where
    tr: "trace (snd (read_value bp el s)) = trace s @ tr" "scripts tr = 0" "sleeps tr = []"
    by blast
  then show ?thesis
    by (intro exI [of _ "tr @ [Sleep 120]"]) (simp add: next_poll_def sleep_def scripts_def)
qed

lemma polls_trace:
  "\<exists>tr. trace ((next_poll bp el ^^ n) s) = trace s @ tr \<and> scripts tr = 0
     \<and> sleeps tr = replicate n 120"
proof (induction n)
  case 0
  show ?case by (intro exI [of _ "[]"]) (simp add: scripts_def)
next
  case (Suc n)
  then obtain tr where
    tr: "trace ((next_poll bp el ^^ n) s) = trace s @ tr" "scripts tr = 0"
      "sleeps tr = replicate n 120"
    by blast
  from next_poll_trace [of bp el "(next_poll bp el ^^ n) s"] obtain tr' where
    tr': "trace (next_poll bp el ((next_poll bp el ^^ n) s)) = trace ((next_poll bp el ^^ n) s) @ tr'"
      "scripts tr' = 0" "sleeps tr' = [120]"
    by blast
  show ?case
    using tr tr'
    by (intro exI [of _ "tr @ tr'"]) (simp add: replicate_append_same)
qed

lemma poll_value_rounds:
  "\<exists>n. (\<forall>i<n. now ((next_poll bp el ^^ i) s) < end
             \<and> \<not> matches allow_partial text (seen bp el ((next_poll bp el ^^ i) s)))
     \<and> (if now ((next_poll bp el ^^ n) s) < end
        then matches allow_partial text (seen bp el ((next_poll bp el ^^ n) s))
           \<and> poll_value bp el text allow_partial end last_val s
               = ((True, seen bp el ((next_poll bp el ^^ n) s)),
                  snd (read_value bp el ((next_poll bp el ^^ n) s)))
        else poll_value bp el text allow_partial end last_val s
               = ((False, if n = 0 then last_val
                          else seen bp el ((next_poll bp el ^^ (n - 1)) s)),
                  (next_poll bp el ^^ n) s))"
proof (induction bp el "text" allow_partial "end" last_val s rule: poll_value.induct)
  case (1 bp el "text" allow_partial "end" last_val s)
  show ?case
  proof (cases "now s < end")
    case False
    then have "poll_value bp el text allow_partial end last_val s = ((False, last_val), s)"
      by (simp add: poll_value.simps)
    with False show ?thesis by (intro exI [of _ 0]) simp
  next
    case True
    obtain r s1 where rv: "read_value bp el s = (r, s1)"
      by (cases "read_value bp el s") auto
    have sn: "seen bp el s = value_of r" using rv by (simp add: seen_def)
    have np: "next_poll bp el s = sleep 120 s1" using rv by (simp add: next_poll_def)
    show ?thesis
    proof (cases "matches allow_partial text (value_of r)")
      case m: True
      have "poll_value bp el text allow_partial end last_val s = ((True, value_of r), s1)"
        using True rv m
        by (subst poll_value.simps) (simp add: value_of_def Let_def)
      with True m sn rv show ?thesis by (intro exI [of _ 0]) simp
    next
      case m: False
      have step: "poll_value bp el text allow_partial end last_val s
          = poll_value bp el text allow_partial end (value_of r) (next_poll bp el s)"
        using True rv m np
        by (subst poll_value.simps) (simp add: value_of_def Let_def)
      have nm: "\<not> matches allow_partial text (case r of Inl e \<Rightarrow> [] | Inr v \<Rightarrow> v)"
        using m by (simp add: value_of_def)
      let ?s = "next_poll bp el s"
      from "1.IH" [OF True rv [symmetric] refl nm]
      obtain n where
        a: "\<forall>i<n. now ((next_poll bp el ^^ i) ?s) < end
             \<and> \<not> matches allow_partial text (seen bp el ((next_poll bp el ^^ i) ?s))"
        and b: "if now ((next_poll bp el ^^ n) ?s) < end
        then matches allow_partial text (seen bp el ((next_poll bp el ^^ n) ?s))
           \<and> poll_value bp el text allow_partial end (value_of r) ?s
               = ((True, seen bp el ((next_poll bp el ^^ n) ?s)),
                  snd (read_value bp el ((next_poll bp el ^^ n) ?s)))
        else poll_value bp el text allow_partial end (value_of r) ?s
               = ((False, if n = 0 then value_of r
                          else seen bp el ((next_poll bp el ^^ (n - 1)) ?s)),
                  (next_poll bp el ^^ n) ?s)"
        unfolding np value_of_def by blast
      have a': "\<forall>i<Suc n. now ((next_poll bp el ^^ i) s) < end
             \<and> \<not> matches allow_partial text (seen bp el ((next_poll bp el ^^ i) s))"
      proof (intro allI impI)
        fix i assume i: "i < Suc n"
        show "now ((next_poll bp el ^^ i) s) < end
             \<and> \<not> matches allow_partial text (seen bp el ((next_poll bp el ^^ i) s))"
        proof (cases i)
          case 0
          with True m sn show ?thesis by simp
        next
          case (Suc j)
          with i have "j < n" by simp
          with a Suc show ?thesis by (simp add: funpow_swap1)
        qed
      qed
      have lv: "(if n = 0 then value_of r else seen bp el ((next_poll bp el ^^ (n - 1)) ?s))
          = seen bp el ((next_poll bp el ^^ (Suc n - 1)) s)"
      proof (cases n)
        case 0
        with sn show ?thesis by simp
      next
        case (Suc k)
        then show ?thesis by (simp add: funpow_swap1)
      qed
      have b': "if now ((next_poll bp el ^^ Suc n) s) < end
        then matches allow_partial text (seen bp el ((next_poll bp el ^^ Suc n) s))
           \<and> poll_value bp el text allow_partial end last_val s
               = ((True, seen bp el ((next_poll bp el ^^ Suc n) s)),
                  snd (read_value bp el ((next_poll bp el ^^ Suc n) s)))
        else poll_value bp el text allow_partial end last_val s
               = ((False, if Suc n = 0 then last_val
                          else seen bp el ((next_poll bp el ^^ (Suc n - 1)) s)),
                  (next_poll bp el ^^ Suc n) s)"
        using b step lv by (simp add: funpow_swap1 del: diff_Suc_1)
      from a' b' show ?thesis by blast
    qed
  qed
qed


lemma js_fallback_once:
  "\<exists>v s' tr. js_fallback bp el text allow_partial last_val s = (Inr v, s')
     \<and> trace s' = trace s @ tr \<and> scripts tr = 1 \<and> set (sleeps tr) \<subseteq> {120}
     \<and> (case execute_script bp set_value_script [ArgElem el, ArgStr text] s of
           (Inl x, s2) \<Rightarrow> v = last_val \<and> s' = s2
         | (Inr u, s2) \<Rightarrow>
             s' = snd (read_value bp el (sleep 120 s2))
           \<and> v = (case fst (read_value bp el (sleep 120 s2)) of
                    Inl x \<Rightarrow> last_val | Inr v' \<Rightarrow> v'))"
proof -
  let ?ev = "ExecuteScript set_value_script [ArgElem el, ArgStr text]"
  obtain r1 s1 where ex: "execute_script bp set_value_script [ArgElem el, ArgStr text] s = (r1, s1)"
    by (cases "execute_script bp set_value_script [ArgElem el, ArgStr text] s") auto
  have t1: "trace s1 = trace s @ [?ev]"
    using ex by (auto simp: execute_script_def dest: call_trace)
  show ?thesis
  proof (cases r1)
    case (Inl x)
    with ex have "js_fallback bp el text allow_partial last_val s = (Inr last_val, s1)"
      by (simp add: js_fallback_def)
    with t1 ex Inl show ?thesis
      by (intro exI [of _ last_val] exI [of _ s1] exI [of _ "[?ev]"]) (simp add: scripts_def)
  next
    case (Inr u)
    obtain r2 s2 where rv: "read_value bp el (sleep 120 s1) = (r2, s2)"
      by (cases "read_value bp el (sleep 120 s1)") auto
    from read_value_trace [of bp el "sleep 120 s1"] rv obtain tr2 where
      tr2: "trace s2 = trace (sleep 120 s1) @ tr2" "scripts tr2 = 0" "sleeps tr2 = []"
      by auto
    have t2: "trace s2 = trace s @ ([?ev, Sleep 120] @ tr2)"
      using tr2(1) t1 by (simp add: sleep_def)
    have run: "js_fallback bp el text allow_partial last_val s
        = (Inr (case r2 of Inl x \<Rightarrow> last_val | Inr v' \<Rightarrow> v'), s2)"
      using ex Inr rv by (auto simp: js_fallback_def split: sum.splits)
    show ?thesis
      using run t2 tr2 ex Inr rv
      by (intro exI [of _ "case r2 of Inl x \<Rightarrow> last_val | Inr v' \<Rightarrow> v'"] exI [of _ s2]
                exI [of _ "[?ev, Sleep 120] @ tr2"])
         (simp add: scripts_def)
  qed
qed

lemma verify_value_rounds:
  "\<exists>n v s' tr.
     verify_value bp el text timeout allow_partial s1 = (Inr v, s')
   \<and> trace s' = trace s1 @ tr \<and> set (sleeps tr) \<subseteq> {120}
   \<and> (let end = now s1 + 1000 * timeout_or_default bp timeout;
          at = (\<lambda>i. (next_poll bp el ^^ i) s1);
          last_val = (if n = 0 then [] else seen bp el (at (n - 1)))
      in (\<forall>i<n. now (at i) < end \<and> \<not> matches allow_partial text (seen bp el (at i)))
       \<and> (if now (at n) < end
          then matches allow_partial text v \<and> v = seen bp el (at n)
             \<and> s' = snd (read_value bp el (at n)) \<and> scripts tr = 0
          else scripts tr = 1
             \<and> (case execute_script bp set_value_script [ArgElem el, ArgStr text] (at n) of
                  (Inl x, s2) \<Rightarrow> v = last_val \<and> s' = s2
                | (Inr u, s2) \<Rightarrow>
                    s' = snd (read_value bp el (sleep 120 s2))
                  \<and> v = (case fst (read_value bp el (sleep 120 s2)) of
                           Inl x \<Rightarrow> last_val | Inr v' \<Rightarrow> v'))))"
proof -
  let ?end = "now s1 + 1000 * timeout_or_default bp timeout"
  let ?at = "\<lambda>i. (next_poll bp el ^^ i) s1"
  from poll_value_rounds [of bp el s1 ?end allow_partial "text" "[]"]
  obtain n where
    a: "\<forall>i<n. now (?at i) < ?end \<and> \<not> matches allow_partial text (seen bp el (?at i))"
    and b: "if now (?at n) < ?end
        then matches allow_partial text (seen bp el (?at n))
           \<and> poll_value bp el text allow_partial ?end [] s1
               = ((True, seen bp el (?at n)), snd (read_value bp el (?at n)))
        else poll_value bp el text allow_partial ?end [] s1
               = ((False, if n = 0 then [] else seen bp el (?at (n - 1))), ?at n)"
    by blast
  from polls_trace [where bp = bp and el = el and n = n and s = s1] obtain trn where
    trn: "trace (?at n) = trace s1 @ trn" "scripts trn = 0" "sleeps trn = replicate n 120"
    by blast
  show ?thesis
  proof (cases "now (?at n) < ?end")
    case True
    with b have run: "verify_value bp el text timeout allow_partial s1
        = (Inr (seen bp el (?at n)), snd (read_value bp el (?at n)))"
      and m: "matches allow_partial text (seen bp el (?at n))"
      by (simp_all add: verify_value_def Let_def)
    from read_value_trace [of bp el "?at n"] obtain tr where
      tr: "trace (snd (read_value bp el (?at n))) = trace (?at n) @ tr" "scripts tr = 0"
        "sleeps tr = []"
      by blast
    have t: "trace (snd (read_value bp el (?at n))) = trace s1 @ (trn @ tr)"
      using trn(1) tr(1) by simp
    have sl: "set (sleeps (trn @ tr)) \<subseteq> {120}" using trn(3) tr(3) by auto
    have sc: "scripts (trn @ tr) = 0" using trn(2) tr(2) by simp
    show ?thesis
      unfolding Let_def
      using run t sl sc a True m
      by (intro exI [of _ n] exI [of _ "seen bp el (?at n)"]
            exI [of _ "snd (read_value bp el (?at n))"] exI [of _ "trn @ tr"]) simp
  next
    case False
    let ?lv = "if n = 0 then [] else seen bp el (?at (n - 1))"
    from False b have p: "poll_value bp el text allow_partial ?end [] s1 = ((False, ?lv), ?at n)"
      by simp
    from js_fallback_once [of bp el "text" allow_partial ?lv "?at n"]
    obtain v s' tr where
      f: "js_fallback bp el text allow_partial ?lv (?at n) = (Inr v, s')"
      and tr: "trace s' = trace (?at n) @ tr" "scripts tr = 1" "set (sleeps tr) \<subseteq> {120}"
      and c: "case execute_script bp set_value_script [ArgElem el, ArgStr text] (?at n) of
           (Inl x, s2) \<Rightarrow> v = ?lv \<and> s' = s2
         | (Inr u, s2) \<Rightarrow>
             s' = snd (read_value bp el (sleep 120 s2))
           \<and> v = (case fst (read_value bp el (sleep 120 s2)) of
                    Inl x \<Rightarrow> ?lv | Inr v' \<Rightarrow> v')"
      by (elim exE conjE) (rule that, assumption+)
    have run: "verify_value bp el text timeout allow_partial s1 = (Inr v, s')"
      using p f by (simp add: verify_value_def Let_def)
    have t: "trace s' = trace s1 @ (trn @ tr)" using trn(1) tr(1) by simp
    have sl: "set (sleeps (trn @ tr)) \<subseteq> {120}" using trn(3) tr(3) by auto
    have sc: "scripts (trn @ tr) = 1" using trn(2) tr(2) by simp
    show ?thesis
      unfolding Let_def
      using run t sl sc a False c
      by (intro exI [of _ n] exI [of _ v] exI [of _ s'] exI [of _ "trn @ tr"]) simp
  qed
qed

text \<open>
  C1.  When the typing part of \<^verbatim>\<open>type_and_verify\<close> raises, the exception
  propagates.  When it returns the element in state \<open>s1\<close>, the call returns a
  value \<open>v\<close> and raises nothing.  \<open>at i\<close> is the state in which poll \<open>i\<close>
  tests the clock: \<open>i\<close> rounds of one read and one sleep of 120 ms after
  \<open>s1\<close>.  Some number \<open>n\<close> of polls each begin before the deadline
  (\<open>now s1\<close> plus the timeout) and read a value that does not match the text
  (equal to it, or containing it when \<^verbatim>\<open>allow_partial\<close> holds).  Then either
  poll \<open>n\<close> begins before the deadline too and its read matches: that value is
  returned in the state after the read, and no script has run.  Or the
  deadline has passed in \<open>at n\<close>: the script runs there, exactly once; when
  it raises, the value of the last poll is returned (the empty string when
  there was no poll); otherwise there is one sleep of 120 ms and one more
  read, whose value is returned, matching or not, and when that read raises the
  value of the last poll is.  Every sleep of the call is of 120 ms.  The last
  part says what a read is: the \<^verbatim>\<open>value\<close> attribute, stripped, and the
  stripped text of the element when the attribute is absent or empty; a read
  that raises inside the loop leaves the empty string.
\<close>

theorem type_and_verify_polls_then_falls_back_once:
  "(type_keys bp locator text timeout clear_first send_enter s = (Inl e, s1) \<longrightarrow>
      type_and_verify bp locator text timeout clear_first allow_partial send_enter s
        = (Inl e, s1))
   \<and> (type_keys bp locator text timeout clear_first send_enter s = (Inr el, s1) \<longrightarrow>
      (\<exists>n v s' tr.
         type_and_verify bp locator text timeout clear_first allow_partial send_enter s
           = (Inr v, s')
       \<and> trace s' = trace s1 @ tr \<and> set (sleeps tr) \<subseteq> {120}
       \<and> (let end = now s1 + 1000 * timeout_or_default bp timeout;
              at = (\<lambda>i. (next_poll bp el ^^ i) s1);
              last_val = (if n = 0 then [] else seen bp el (at (n - 1)))
          in (\<forall>i<n. now (at i) < end \<and> \<not> matches allow_partial text (seen bp el (at i)))
           \<and> (if now (at n) < end
              then matches allow_partial text v \<and> v = seen bp el (at n)
                 \<and> s' = snd (read_value bp el (at n)) \<and> scripts tr = 0
              else scripts tr = 1
                 \<and> (case execute_script bp set_value_script [ArgElem el, ArgStr text] (at n) of
                      (Inl x, s2) \<Rightarrow> v = last_val \<and> s' = s2
                    | (Inr u, s2) \<Rightarrow>
                        s' = snd (read_value bp el (sleep 120 s2))
                      \<and> v = (case fst (read_value bp el (sleep 120 s2)) of
                               Inl x \<Rightarrow> last_val | Inr v' \<Rightarrow> v'))))))
   \<and> (\<forall>s0. seen bp el s0 =
         (case drv_get_attribute (driver bp) el ''value'' (page s0) of
            (Inl x, w) \<Rightarrow> []
          | (Inr a, w) \<Rightarrow>
              if or_empty a \<noteq> [] then strip (or_empty a)
              else (case drv_text (driver bp) el w of
                      (Inl x, w') \<Rightarrow> []
                    | (Inr tx, w') \<Rightarrow> strip tx))
       \<and> trace (snd (read_value bp el s0)) = trace s0 @
           (case fst (drv_get_attribute (driver bp) el ''value'' (page s0)) of
              Inl x \<Rightarrow> [GetAttribute el ''value'']
            | Inr a \<Rightarrow> if or_empty a \<noteq> [] then [GetAttribute el ''value'']
                       else [GetAttribute el ''value'', GetText el]))"
proof (intro conjI impI allI)
  assume "type_keys bp locator text timeout clear_first send_enter s = (Inl e, s1)"
  then show "type_and_verify bp locator text timeout clear_first allow_partial send_enter s
          = (Inl e, s1)"
    by (simp add: type_and_verify_def)
next
  assume "type_keys bp locator text timeout clear_first send_enter s = (Inr el, s1)"
  then have "type_and_verify bp locator text timeout clear_first allow_partial send_enter s
      = verify_value bp el text timeout allow_partial s1"
    by (simp add: type_and_verify_def)
  then show "\<exists>n v s' tr.
         type_and_verify bp locator text timeout clear_first allow_partial send_enter s
           = (Inr v, s')
       \<and> trace s' = trace s1 @ tr \<and> set (sleeps tr) \<subseteq> {120}
       \<and> (let end = now s1 + 1000 * timeout_or_default bp timeout;
              at = (\<lambda>i. (next_poll bp el ^^ i) s1);
              last_val = (if n = 0 then [] else seen bp el (at (n - 1)))
          in (\<forall>i<n. now (at i) < end \<and> \<not> matches allow_partial text (seen bp el (at i)))
           \<and> (if now (at n) < end
              then matches allow_partial text v \<and> v = seen bp el (at n)
                 \<and> s' = snd (read_value bp el (at n)) \<and> scripts tr = 0
              else scripts tr = 1
                 \<and> (case execute_script bp set_value_script [ArgElem el, ArgStr text] (at n) of
                      (Inl x, s2) \<Rightarrow> v = last_val \<and> s' = s2
                    | (Inr u, s2) \<Rightarrow>
                        s' = snd (read_value bp el (sleep 120 s2))
                      \<and> v = (case fst (read_value bp el (sleep 120 s2)) of
                               Inl x \<Rightarrow> last_val | Inr v' \<Rightarrow> v'))))"
    using verify_value_rounds [of bp el "text" timeout allow_partial s1] by simp
next
  fix s0
  show "seen bp el s0 =
         (case drv_get_attribute (driver bp) el ''value'' (page s0) of
            (Inl x, w) \<Rightarrow> []
          | (Inr a, w) \<Rightarrow>
              if or_empty a \<noteq> [] then strip (or_empty a)
              else (case drv_text (driver bp) el w of
                      (Inl x, w') \<Rightarrow> []
                    | (Inr tx, w') \<Rightarrow> strip tx))"
    by (simp add: seen_def value_of_def read_value_driver split: prod.splits sum.splits)
next
  fix s0
  show "trace (snd (read_value bp el s0)) = trace s0 @
           (case fst (drv_get_attribute (driver bp) el ''value'' (page s0)) of
              Inl x \<Rightarrow> [GetAttribute el ''value'']
            | Inr a \<Rightarrow> if or_empty a \<noteq> [] then [GetAttribute el ''value'']
                       else [GetAttribute el ''value'', GetText el])"
    by (rule read_value_events)
qed


text \<open>
  On the example browser the field holds \<open>abd\<close> whatever is typed: two
  polls before the deadline, then the script, the sleep and the one re-check,
  and the mismatching value is returned.
\<close>

lemma demo_type_keys:
  "type_keys demo_page (''xpath'', ''//input'') ''abc'' (Some 1) True False demo_session
     = (Inr 7, demo_typed)"
  by (simp add: type_keys_def find_visible_def wait_def wait_until_def el_click_def el_clear_def
      el_send_keys_def call_def pass_def is_Exception_def timeout_or_default_def
      demo_page_def demo_driver_def demo_session_def demo_typed_def)

lemma demo_read_value:
  "read_value demo_page 7 s
     = (Inr ''abd'', s\<lparr>now := now s + 800, page := Suc (Suc (page s)),
          trace := trace s @ [GetAttribute 7 ''value'', GetText 7]\<rparr>)"
  by (simp add: read_value_def el_get_attribute_def el_text_def call_def or_empty_def strip_def
      rstrip_chars_def lstrip_chars_def is_space_def demo_page_def demo_driver_def)

lemma demo_next_poll:
  "next_poll demo_page 7 s
     = s\<lparr>now := now s + 920, page := Suc (Suc (page s)),
          trace := trace s @ [GetAttribute 7 ''value'', GetText 7, Sleep 120]\<rparr>"
  by (simp add: next_poll_def demo_read_value sleep_def)

lemma demo_seen: "seen demo_page 7 s = ''abd''"
  by (simp add: seen_def value_of_def demo_read_value)

lemma demo_polls:
  "now ((next_poll demo_page 7 ^^ 0) demo_typed) = 7000"
  "now ((next_poll demo_page 7 ^^ 1) demo_typed) = 7920"
  "(next_poll demo_page 7 ^^ 2) demo_typed
     = \<lparr>now = 8840, page = 9, os = demo_os2,
        trace = trace demo_typed @ [GetAttribute 7 ''value'', GetText 7, Sleep 120,
                                    GetAttribute 7 ''value'', GetText 7, Sleep 120]\<rparr>"
  by (simp_all add: numeral_2_eq_2 demo_next_poll demo_typed_def)

theorem type_and_verify_polls_then_falls_back_once_witness:
  "type_and_verify demo_page (''xpath'', ''//input'') ''abc'' (Some 1) True False False
     demo_session
   = (Inr ''abd'',
      \<lparr>now = 10160, page = 12, os = demo_os2,
        trace = trace demo_typed @ [GetAttribute 7 ''value'', GetText 7, Sleep 120,
                                    GetAttribute 7 ''value'', GetText 7, Sleep 120,
                                    ExecuteScript set_value_script [ArgElem 7, ArgStr ''abc''],
                                    Sleep 120,
                                    GetAttribute 7 ''value'', GetText 7]\<rparr>)"
proof -
  let ?at = "\<lambda>i. (next_poll demo_page 7 ^^ i) demo_typed"
  have nt: "now demo_typed = 7000" by (simp add: demo_typed_def)
  from type_and_verify_polls_then_falls_back_once
         [of demo_page "(''xpath'', ''//input'')" "''abc''" "Some 1" True False demo_session _
            demo_typed False 7,
          THEN conjunct2, THEN conjunct1, THEN mp, OF demo_type_keys]
  obtain n v s' tr where
    run: "type_and_verify demo_page (''xpath'', ''//input'') ''abc'' (Some 1) True False False
            demo_session = (Inr v, s')"
    and rest: "trace s' = trace demo_typed @ tr \<and> set (sleeps tr) \<subseteq> {120}
       \<and> (let end = now demo_typed + 1000 * timeout_or_default demo_page (Some 1);
              at = (\<lambda>i. (next_poll demo_page 7 ^^ i) demo_typed);
              last_val = (if n = 0 then [] else seen demo_page 7 (at (n - 1)))
          in (\<forall>i<n. now (at i) < end \<and> \<not> matches False ''abc'' (seen demo_page 7 (at i)))
           \<and> (if now (at n) < end
              then matches False ''abc'' v \<and> v = seen demo_page 7 (at n)
                 \<and> s' = snd (read_value demo_page 7 (at n)) \<and> scripts tr = 0
              else scripts tr = 1
                 \<and> (case execute_script demo_page set_value_script [ArgElem 7, ArgStr ''abc'']
                           (at n) of
                      (Inl x, s2) \<Rightarrow> v = last_val \<and> s' = s2
                    | (Inr u, s2) \<Rightarrow>
                        s' = snd (read_value demo_page 7 (sleep 120 s2))
                      \<and> v = (case fst (read_value demo_page 7 (sleep 120 s2)) of
                               Inl x \<Rightarrow> last_val | Inr v' \<Rightarrow> v'))))"
    by (elim exE) (erule conjE, rule that, assumption+)
  have a: "\<forall>i<n. now (?at i) < 8000 \<and> \<not> matches False ''abc'' (seen demo_page 7 (?at i))"
    using rest by (simp add: Let_def timeout_or_default_def nt)
  have b1: "now (?at n) < 8000 \<Longrightarrow> matches False ''abc'' v \<and> v = seen demo_page 7 (?at n)"
    using rest by (auto simp: Let_def timeout_or_default_def nt)
  have b2: "\<not> now (?at n) < 8000 \<Longrightarrow>
      (case execute_script demo_page set_value_script [ArgElem 7, ArgStr ''abc''] (?at n) of
         (Inl x, s2) \<Rightarrow> v = (if n = 0 then [] else seen demo_page 7 (?at (n - 1))) \<and> s' = s2
       | (Inr u, s2) \<Rightarrow>
           s' = snd (read_value demo_page 7 (sleep 120 s2))
         \<and> v = (case fst (read_value demo_page 7 (sleep 120 s2)) of
                  Inl x \<Rightarrow> (if n = 0 then [] else seen demo_page 7 (?at (n - 1)))
                | Inr v' \<Rightarrow> v'))"
    using rest by (simp add: Let_def timeout_or_default_def nt)
  have nm: "\<not> matches False ''abc'' ''abd''" by (simp add: matches_def)
  have "n = 2"
  proof (rule ccontr)
    assume "n \<noteq> 2"
    then consider "n = 0" | "n = 1" | "2 < n" by linarith
    then show False
    proof cases
      case 1
      with b1 nm show False by (auto simp: demo_next_poll demo_seen nt)
    next
      case 2
      with b1 nm show False by (auto simp: demo_next_poll demo_seen nt)
    next
      case 3
      with a have "now (?at 2) < 8000" by blast
      then show False by (simp add: demo_polls)
    qed
  qed
  with b2 have "v = ''abd''"
    and "s' = \<lparr>now = 10160, page = 12, os = demo_os2,
        trace = trace demo_typed @ [GetAttribute 7 ''value'', GetText 7, Sleep 120,
                                    GetAttribute 7 ''value'', GetText 7, Sleep 120,
                                    ExecuteScript set_value_script [ArgElem 7, ArgStr ''abc''],
                                    Sleep 120,
                                    GetAttribute 7 ''value'', GetText 7]\<rparr>"
    by (simp_all add: demo_polls demo_read_value execute_script_def call_def sleep_def
        demo_page_def [THEN arg_cong, of driver] demo_driver_def)
  with run show ?thesis by simp
qed


text \<open>
  Reads that raise.  When the element goes stale after the first poll, the
  second poll leaves the empty string and the failing re-check keeps it; when
  it goes stale only after the script, the re-check fails and the value of the
  last poll is returned.
\<close>

lemma stale_type_keys:
  "type_keys (stale_page k) (''xpath'', ''//input'') ''abc'' (Some 1) True False demo_session
     = (Inr 7, demo_typed)"
  by (simp add: type_keys_def find_visible_def wait_def wait_until_def el_click_def el_clear_def
      el_send_keys_def call_def pass_def is_Exception_def timeout_or_default_def
      stale_page_def stale_driver_def demo_page_def demo_driver_def demo_session_def
      demo_typed_def)

lemma stale_type_and_verify:
  "fst (type_and_verify (stale_page 6) (''xpath'', ''//input'') ''abc'' (Some 1) True False False
         demo_session) = Inr []"
  "fst (type_and_verify (stale_page 8) (''xpath'', ''//input'') ''abc'' (Some 1) True False False
         demo_session) = Inr ''X''"
proof -
  have "fst (verify_value (stale_page 6) 7 ''abc'' (Some 1) False demo_typed) = Inr []"
    by (simp add: verify_value_def poll_value.simps js_fallback_def read_value_def
        el_get_attribute_def el_text_def execute_script_def call_def sleep_def or_empty_def
        matches_def strip_def rstrip_chars_def lstrip_chars_def is_space_def
        timeout_or_default_def Let_def stale_page_def stale_driver_def demo_page_def
        demo_driver_def demo_typed_def)
  then show "fst (type_and_verify (stale_page 6) (''xpath'', ''//input'') ''abc'' (Some 1) True
         False False demo_session) = Inr []"
    by (simp add: type_and_verify_def stale_type_keys)
  have "fst (verify_value (stale_page 8) 7 ''abc'' (Some 1) False demo_typed) = Inr ''X''"
    by (simp add: verify_value_def poll_value.simps js_fallback_def read_value_def
        el_get_attribute_def el_text_def execute_script_def call_def sleep_def or_empty_def
        matches_def strip_def rstrip_chars_def lstrip_chars_def is_space_def
        timeout_or_default_def Let_def stale_page_def stale_driver_def demo_page_def
        demo_driver_def demo_typed_def)
  then show "fst (type_and_verify (stale_page 8) (''xpath'', ''//input'') ''abc'' (Some 1) True
         False False demo_session) = Inr ''X''"
    by (simp add: type_and_verify_def stale_type_keys)
qed

end
